theory Spec2Isabelle
  imports Complex_Main
begin

section \<open>Data model (core/models.py)\<close>

text \<open>
  The coordinates and headings that the data model stores are \<^typ>\<open>real\<close> numbers: the
  model layer stores and compares them and does no arithmetic on them. Where the code
  computes with floats (the coordinate transform, the curve geometry, the heading in
  double precision) the rounding of binary64 is modelled, as said there. The
  enumerations are datatypes, the dataclasses are records. The
  waypoint fields \<^verbatim>\<open>x\<close> and \<^verbatim>\<open>y\<close> are called \<open>wp_x\<close> and \<open>wp_y\<close> so that they do not
  capture the variables of the same name.
\<close>

datatype MotionType = START | MOVE_TO_POSE | MOVE_VERTICAL | ROTATE_TO

datatype HeadingMode = AUTO | MANUAL

datatype Side = LEFT | RIGHT | FULL

datatype Alliance = RED | BLUE

record Waypoint =
  wp_x :: real
  wp_y :: real
  heading :: "real option"
  heading_mode :: HeadingMode
  motion_type :: MotionType
  reverse :: bool
  intaking :: bool
  conveyor :: bool
  commands_after :: "string list"

text \<open>
  The dataclass constructor with every optional field but \<^verbatim>\<open>motion_type\<close> at its default,
  as \<^verbatim>\<open>add_waypoint\<close> calls it, and with all of them at their defaults.
\<close>

definition Waypoint_init :: "real \<Rightarrow> real \<Rightarrow> MotionType \<Rightarrow> Waypoint" where
  "Waypoint_init px py motion =
     \<lparr>wp_x = px, wp_y = py, heading = None, heading_mode = AUTO, motion_type = motion,
      reverse = False, intaking = False, conveyor = False, commands_after = []\<rparr>"

definition Waypoint_default :: "real \<Rightarrow> real \<Rightarrow> Waypoint" where
  "Waypoint_default px py = Waypoint_init px py MOVE_TO_POSE"

record Path =
  name :: string
  alliance :: Alliance
  side :: Side
  waypoints :: "Waypoint list"

definition Path_init :: "string \<Rightarrow> Path" where
  "Path_init n = \<lparr>name = n, alliance = RED, side = LEFT, waypoints = []\<rparr>"

text \<open>\<^verbatim>\<open>list.pop(i)\<close> for an index already known to be in range.\<close>

definition pop_at :: "nat \<Rightarrow> 'a list \<Rightarrow> 'a list" where
  "pop_at i xs = take i xs @ drop (Suc i) xs"

text \<open>\<^verbatim>\<open>Path.add_waypoint\<close>: the new index and the updated path.\<close>

definition add_waypoint :: "Path \<Rightarrow> real \<Rightarrow> real \<Rightarrow> nat \<times> Path" where
  "add_waypoint p px py =
     (let motion = (if length (waypoints p) = 0 then START else MOVE_TO_POSE);
          wp = Waypoint_init px py motion;
          p' = p\<lparr>waypoints := waypoints p @ [wp]\<rparr>
      in (length (waypoints p') - 1, p'))"

text \<open>\<^verbatim>\<open>Path.remove_waypoint\<close>: a no-op out of range (a negative index included).\<close>

definition remove_waypoint :: "Path \<Rightarrow> int \<Rightarrow> Path" where
  "remove_waypoint p index =
     (if 0 \<le> index \<and> index < int (length (waypoints p)) then
        (let ws = pop_at (nat index) (waypoints p)
         in if index = 0 \<and> length ws > 0
            then p\<lparr>waypoints := ws[0 := (ws ! 0)\<lparr>motion_type := START\<rparr>]\<rparr>
            else p\<lparr>waypoints := ws\<rparr>)
      else p)"

definition is_valid_position :: "Path \<Rightarrow> real \<Rightarrow> real \<Rightarrow> bool" where
  "is_valid_position p px py =
     (if side p = FULL then True
      else if side p = LEFT then px \<le> 0
      else px \<ge> 0)"

text \<open>A finite sequence of calls of the two mutators.\<close>

datatype PathOp = AddWaypoint real real | RemoveWaypoint int

fun apply_op :: "Path \<Rightarrow> PathOp \<Rightarrow> Path" where
  "apply_op p (AddWaypoint px py) = snd (add_waypoint p px py)"
| "apply_op p (RemoveWaypoint i) = remove_waypoint p i"

definition run_ops :: "Path \<Rightarrow> PathOp list \<Rightarrow> Path" where
  "run_ops p ops = foldl apply_op p ops"

definition count_START :: "Waypoint list \<Rightarrow> nat" where
  "count_START ws = length (filter (\<lambda>w. motion_type w = START) ws)"

definition START_invariant :: "Waypoint list \<Rightarrow> bool" where
  "START_invariant ws \<longleftrightarrow>
     count_START ws \<le> 1 \<and> (ws \<noteq> [] \<longrightarrow> motion_type (ws ! 0) = START)"

text \<open>The inductive form: the head is the START waypoint and the tail has none.\<close>

definition head_only_START :: "Waypoint list \<Rightarrow> bool" where
  "head_only_START ws \<longleftrightarrow>
     (case ws of [] \<Rightarrow> True
      | w # rest \<Rightarrow> motion_type w = START \<and> (\<forall>v \<in> set rest. motion_type v \<noteq> START))"

section \<open>Snapshot undo engine (core/undo.py)\<close>

text \<open>
  The exceptions of the Python code that the models below can raise, as values.
\<close>

datatype py_error = IndexError | KeyError string | ValueError | ZeroDivisionError | TypeError
  | OverflowError

text \<open>Sequencing: the first exception ends the computation.\<close>

definition bind_err :: "py_error + 'a \<Rightarrow> ('a \<Rightarrow> py_error + 'b) \<Rightarrow> py_error + 'b" where
  "bind_err r f = (case r of Inl e \<Rightarrow> Inl e | Inr v \<Rightarrow> f v)"

text \<open>
  A snapshot holds a deep copy of the state. States are HOL values, so a deep copy is the
  value itself and a stored snapshot cannot be changed by a later mutation of the live
  model. Both stacks are Python lists with the top at the end. The observer callbacks
  of \<^verbatim>\<open>_notify_change\<close> run after the stacks have been updated and their exceptions
  are caught; they are taken not to call back into the manager and are left out.
\<close>

record 'a UndoState =
  description :: string
  state :: 'a

record 'a UndoManager =
  max_history :: int
  undo_stack :: "'a UndoState list"
  redo_stack :: "'a UndoState list"

definition UndoManager_init :: "int \<Rightarrow> 'a UndoManager" where
  "UndoManager_init mh = \<lparr>max_history = mh, undo_stack = [], redo_stack = []\<rparr>"

text \<open>
  The loop \<^verbatim>\<open>while len(self.undo_stack) > self.max_history: self.undo_stack.pop(0)\<close>.
  With a negative bound it reaches the empty list, where \<^verbatim>\<open>pop(0)\<close> raises.
\<close>

fun trim_history :: "int \<Rightarrow> 'b list \<Rightarrow> py_error + 'b list" where
  "trim_history mh [] = (if int (length ([] :: 'b list)) > mh then Inl IndexError else Inr [])"
| "trim_history mh (e # es) =
     (if int (length (e # es)) > mh then trim_history mh es else Inr (e # es))"

definition save_state :: "'a UndoManager \<Rightarrow> 'a \<Rightarrow> string \<Rightarrow> py_error + 'a UndoManager" where
  "save_state m s d =
     (let snapshot = \<lparr>description = d, state = s\<rparr>;
          pushed = undo_stack m @ [snapshot]
      in case trim_history (max_history m) pushed of
           Inl e \<Rightarrow> Inl e
         | Inr trimmed \<Rightarrow> Inr (m\<lparr>undo_stack := trimmed, redo_stack := []\<rparr>))"

definition can_undo :: "'a UndoManager \<Rightarrow> bool" where
  "can_undo m \<longleftrightarrow> length (undo_stack m) > 1"

definition can_redo :: "'a UndoManager \<Rightarrow> bool" where
  "can_redo m \<longleftrightarrow> length (redo_stack m) > 0"

text \<open>\<^verbatim>\<open>undo\<close> and \<^verbatim>\<open>redo\<close>: the returned value (\<open>None\<close> as in Python) and the manager.\<close>

definition undo :: "'a UndoManager \<Rightarrow> 'a option \<times> 'a UndoManager" where
  "undo m =
     (if \<not> can_undo m then (None, m)
      else
        (let current = last (undo_stack m);
             m' = m\<lparr>undo_stack := butlast (undo_stack m),
                    redo_stack := redo_stack m @ [current]\<rparr>
         in if undo_stack m' \<noteq> [] then (Some (state (last (undo_stack m'))), m')
            else (None, m')))"

definition redo :: "'a UndoManager \<Rightarrow> 'a option \<times> 'a UndoManager" where
  "redo m =
     (if \<not> can_redo m then (None, m)
      else
        (let st = last (redo_stack m);
             m' = m\<lparr>redo_stack := butlast (redo_stack m),
                    undo_stack := undo_stack m @ [st]\<rparr>
         in (Some (state st), m')))"

definition clear :: "'a UndoManager \<Rightarrow> 'a UndoManager" where
  "clear m = m\<lparr>undo_stack := [], redo_stack := []\<rparr>"

text \<open>A sequence of \<^verbatim>\<open>save_state\<close> calls; an exception ends it.\<close>

fun save_all :: "'a UndoManager \<Rightarrow> ('a \<times> string) list \<Rightarrow> py_error + 'a UndoManager" where
  "save_all m [] = Inr m"
| "save_all m ((s, d) # rest) =
     (case save_state m s d of Inl e \<Rightarrow> Inl e | Inr m' \<Rightarrow> save_all m' rest)"

definition snapshot_of :: "'a \<times> string \<Rightarrow> 'a UndoState" where
  "snapshot_of sd = \<lparr>description = snd sd, state = fst sd\<rparr>"

section \<open>Heading (core/coordinates.py)\<close>

text \<open>
  \<^verbatim>\<open>math.atan2(a, b)\<close> of the Python library, the angle in \<open>(-\<pi>, \<pi>]\<close> of the point
  with abscissa \<open>b\<close> and ordinate \<open>a\<close>, and \<^verbatim>\<open>math.degrees\<close>.
\<close>

definition atan2 :: "real \<Rightarrow> real \<Rightarrow> real" where
  "atan2 a b =
     (if b > 0 then arctan (a / b)
      else if b < 0 then (if a \<ge> 0 then arctan (a / b) + pi else arctan (a / b) - pi)
      else if a > 0 then pi / 2
      else if a < 0 then - (pi / 2)
      else 0)"

definition degrees :: "real \<Rightarrow> real" where
  "degrees r = r * (180 / pi)"

definition calculate_heading :: "real \<Rightarrow> real \<Rightarrow> real \<Rightarrow> real \<Rightarrow> real" where
  "calculate_heading from_x from_y to_x to_y =
     (let dx = to_x - from_x;
          dy = to_y - from_y;
          angle = degrees (atan2 dx dy)
      in if angle < 0 then angle + 360 else angle)"

definition calculate_distance :: "real \<Rightarrow> real \<Rightarrow> real \<Rightarrow> real \<Rightarrow> real" where
  "calculate_distance x1 y1 x2 y2 = sqrt ((x2 - x1)\<^sup>2 + (y2 - y1)\<^sup>2)"

subsection \<open>Double precision\<close>

text \<open>
  The same function in double precision. A Python float is an IEEE 754 binary64 number
  and every arithmetic operation returns the exact result rounded to the nearest
  number of 53 significant bits, ties to the even one; overflow and subnormal numbers
  play no part here and are left out of \<open>round_to_double\<close>. \<^verbatim>\<open>math.atan2\<close> is taken to
  return the exact angle correctly rounded, and \<^verbatim>\<open>math.degrees\<close> multiplies by the
  constant \<^verbatim>\<open>180.0 / pi\<close>, itself computed in double precision.
\<close>

definition round_half_even :: "real \<Rightarrow> int" where
  "round_half_even r =
     (let f = \<lfloor>r\<rfloor>
      in if r - of_int f < 1 / 2 then f
         else if r - of_int f > 1 / 2 then f + 1
         else if even f then f else f + 1)"

definition round_to_double :: "real \<Rightarrow> real" where
  "round_to_double v =
     (if v = 0 then 0
      else (let q = 2 powr (of_int \<lfloor>log 2 \<bar>v\<bar>\<rfloor> - 52)
            in q * of_int (round_half_even (v / q))))"

definition float_atan2 :: "real \<Rightarrow> real \<Rightarrow> real" where
  "float_atan2 a b = round_to_double (atan2 a b)"

definition float_degrees :: "real \<Rightarrow> real" where
  "float_degrees r = round_to_double (r * round_to_double (180 / round_to_double pi))"

definition calculate_heading_float :: "real \<Rightarrow> real \<Rightarrow> real \<Rightarrow> real \<Rightarrow> real" where
  "calculate_heading_float from_x from_y to_x to_y =
     (let dx = round_to_double (to_x - from_x);
          dy = round_to_double (to_y - from_y);
          angle = float_degrees (float_atan2 dx dy)
      in if angle < 0 then round_to_double (angle + 360) else angle)"

section \<open>Binary64 arithmetic\<close>

text \<open>
  A Python float is an IEEE 754 binary64 number: a finite number, an infinity or NaN.
  The sign of zero is not represented: the operations below cannot tell the two zeros
  apart except by the sign of a zero result. A finite result is the exact result
  rounded to the nearest number of the format, ties to the even one: numbers of
  magnitude at least \<^verbatim>\<open>2**-1022\<close> have 53 significant bits, smaller ones are multiples
  of \<^verbatim>\<open>2**-1074\<close>, and a result that rounds to magnitude \<^verbatim>\<open>2**1024\<close> or more overflows.
\<close>

datatype float64 = Fin real | PInf | NInf | NaN

definition round_binary64 :: "real \<Rightarrow> real" where
  "round_binary64 v =
     (if v = 0 then 0
      else (let e = max \<lfloor>log 2 \<bar>v\<bar>\<rfloor> (- 1022);
                q = 2 powr (of_int e - 52)
            in q * of_int (round_half_even (v / q))))"

definition to_float64 :: "real \<Rightarrow> float64" where
  "to_float64 v =
     (let r = round_binary64 v
      in if 2 ^ 1024 \<le> \<bar>r\<bar> then (if 0 < v then PInf else NInf) else Fin r)"

text \<open>The finite numbers of the format.\<close>

definition is_double :: "real \<Rightarrow> bool" where
  "is_double v \<longleftrightarrow> to_float64 v = Fin v"

fun float_neg :: "float64 \<Rightarrow> float64" where
  "float_neg (Fin a) = Fin (- a)"
| "float_neg PInf = NInf"
| "float_neg NInf = PInf"
| "float_neg NaN = NaN"

fun float_add :: "float64 \<Rightarrow> float64 \<Rightarrow> float64" where
  "float_add (Fin a) (Fin b) = to_float64 (a + b)"
| "float_add NaN _ = NaN"
| "float_add _ NaN = NaN"
| "float_add PInf NInf = NaN"
| "float_add NInf PInf = NaN"
| "float_add PInf _ = PInf"
| "float_add _ PInf = PInf"
| "float_add NInf _ = NInf"
| "float_add _ NInf = NInf"

definition float_sub :: "float64 \<Rightarrow> float64 \<Rightarrow> float64" where
  "float_sub a b = float_add a (float_neg b)"

text \<open>An infinity with the sign of a finite factor or divisor that is not zero.\<close>

definition signed_inf :: "bool \<Rightarrow> float64" where
  "signed_inf positive = (if positive then PInf else NInf)"

fun float_mul :: "float64 \<Rightarrow> float64 \<Rightarrow> float64" where
  "float_mul (Fin a) (Fin b) = to_float64 (a * b)"
| "float_mul NaN _ = NaN"
| "float_mul _ NaN = NaN"
| "float_mul (Fin a) PInf = (if a = 0 then NaN else signed_inf (0 < a))"
| "float_mul (Fin a) NInf = (if a = 0 then NaN else signed_inf (a < 0))"
| "float_mul PInf (Fin b) = (if b = 0 then NaN else signed_inf (0 < b))"
| "float_mul NInf (Fin b) = (if b = 0 then NaN else signed_inf (b < 0))"
| "float_mul PInf PInf = PInf"
| "float_mul PInf NInf = NInf"
| "float_mul NInf PInf = NInf"
| "float_mul NInf NInf = PInf"

text \<open>
  True division of floats: Python raises for a zero divisor whatever the dividend is.
\<close>

fun float_div :: "float64 \<Rightarrow> float64 \<Rightarrow> py_error + float64" where
  "float_div a (Fin b) =
     (if b = 0 then Inl ZeroDivisionError
      else (case a of
              Fin x \<Rightarrow> Inr (to_float64 (x / b))
            | PInf \<Rightarrow> Inr (signed_inf (0 < b))
            | NInf \<Rightarrow> Inr (signed_inf (b < 0))
            | NaN \<Rightarrow> Inr NaN))"
| "float_div NaN _ = Inr NaN"
| "float_div _ NaN = Inr NaN"
| "float_div (Fin a) _ = Inr (Fin 0)"
| "float_div _ _ = Inr NaN"

text \<open>
  The implicit conversion of an int operand, which raises when the int is beyond the
  range of the format.
\<close>

definition int_to_float :: "int \<Rightarrow> py_error + float64" where
  "int_to_float i =
     (case to_float64 (of_int i) of Fin v \<Rightarrow> Inr (Fin v) | _ \<Rightarrow> Inl OverflowError)"

section \<open>Coordinate transform (core/coordinates.py)\<close>

definition FIELD_SIZE_INCHES :: float64 where
  "FIELD_SIZE_INCHES = Fin 144"

definition FIELD_HALF_SIZE :: float64 where
  "FIELD_HALF_SIZE = Fin 72"

record CoordinateSystem =
  canvas_size :: int
  scale :: float64

text \<open>
  The constructor: \<^verbatim>\<open>canvas_size / FIELD_SIZE_INCHES\<close> divides an int by a float, so the
  int is converted first.
\<close>

definition CoordinateSystem_init :: "int \<Rightarrow> py_error + CoordinateSystem" where
  "CoordinateSystem_init cs =
     bind_err (int_to_float cs) (\<lambda>size.
     bind_err (float_div size FIELD_SIZE_INCHES) (\<lambda>s.
     Inr \<lparr>canvas_size = cs, scale = s\<rparr>))"

definition field_to_canvas :: "CoordinateSystem \<Rightarrow> float64 \<Rightarrow> float64 \<Rightarrow> float64 \<times> float64" where
  "field_to_canvas c field_x field_y =
     (let canvas_x = float_mul (float_add field_x FIELD_HALF_SIZE) (scale c);
          canvas_y = float_mul (float_sub FIELD_HALF_SIZE field_y) (scale c)
      in (canvas_x, canvas_y))"

definition canvas_to_field ::
    "CoordinateSystem \<Rightarrow> float64 \<Rightarrow> float64 \<Rightarrow> py_error + float64 \<times> float64" where
  "canvas_to_field c canvas_x canvas_y =
     bind_err (float_div canvas_x (scale c)) (\<lambda>qx.
     let field_x = float_sub qx FIELD_HALF_SIZE in
     bind_err (float_div canvas_y (scale c)) (\<lambda>qy.
     let field_y = float_sub FIELD_HALF_SIZE qy in
     Inr (field_x, field_y)))"

text \<open>
  The round trip: a canvas of the given size, field to canvas and back to field.
\<close>

definition field_round_trip :: "int \<Rightarrow> float64 \<Rightarrow> float64 \<Rightarrow> py_error + float64 \<times> float64" where
  "field_round_trip cs field_x field_y =
     bind_err (CoordinateSystem_init cs) (\<lambda>c.
     canvas_to_field c (fst (field_to_canvas c field_x field_y))
                       (snd (field_to_canvas c field_x field_y)))"

section \<open>Curve geometry (core/geomtry.py)\<close>

text \<open>
  The float operations that only the geometry uses. \<^verbatim>\<open>x ** 2\<close> calls the C library's
  \<^verbatim>\<open>pow\<close>, which is accurate but not always correctly rounded, so the value that it
  computes for the square of \<open>a\<close> is a parameter \<open>pw a\<close> of the model; Python raises
  \<^verbatim>\<open>OverflowError\<close> when that value is beyond the range of the format. \<^verbatim>\<open>math.sqrt\<close> is
  correctly rounded and raises \<^verbatim>\<open>ValueError\<close> below zero; \<^verbatim>\<open>int()\<close> truncates towards
  zero and raises on an infinity and on NaN; the true division of two ints returns
  the correctly rounded quotient.
\<close>

fun float_square :: "(real \<Rightarrow> real) \<Rightarrow> float64 \<Rightarrow> py_error + float64" where
  "float_square pw (Fin a) =
     (case to_float64 (pw a) of Fin r \<Rightarrow> Inr (Fin r) | _ \<Rightarrow> Inl OverflowError)"
| "float_square pw NaN = Inr NaN"
| "float_square pw _ = Inr PInf"

text \<open>
  A square function that is never negative and within one unit in the last place of
  the exact square (an absolute \<^verbatim>\<open>2**-1074\<close> for the smallest squares).
\<close>

definition accurate_square :: "(real \<Rightarrow> real) \<Rightarrow> bool" where
  "accurate_square pw \<longleftrightarrow>
     (\<forall>a. 0 \<le> pw a \<and> \<bar>pw a - a * a\<bar> \<le> a * a / 2 ^ 52 + 1 / 2 ^ 1074)"

fun float_sqrt :: "float64 \<Rightarrow> py_error + float64" where
  "float_sqrt (Fin a) = (if a < 0 then Inl ValueError else Inr (to_float64 (sqrt a)))"
| "float_sqrt PInf = Inr PInf"
| "float_sqrt NInf = Inl ValueError"
| "float_sqrt NaN = Inr NaN"

definition py_trunc :: "real \<Rightarrow> int" where
  "py_trunc v = (if v \<ge> 0 then \<lfloor>v\<rfloor> else \<lceil>v\<rceil>)"

fun py_int :: "float64 \<Rightarrow> py_error + int" where
  "py_int (Fin v) = Inr (py_trunc v)"
| "py_int NaN = Inl ValueError"
| "py_int _ = Inl OverflowError"

definition int_truediv :: "int \<Rightarrow> int \<Rightarrow> py_error + float64" where
  "int_truediv i n =
     (if n = 0 then Inl ZeroDivisionError
      else (case to_float64 (of_int i / of_int n) of
              Fin v \<Rightarrow> Inr (Fin v)
            | _ \<Rightarrow> Inl OverflowError))"

text \<open>The fields \<^verbatim>\<open>x\<close> and \<^verbatim>\<open>y\<close> of \<^verbatim>\<open>Point\<close> are called \<open>pt_x\<close> and \<open>pt_y\<close>.\<close>

record Point =
  pt_x :: float64
  pt_y :: float64

definition distance_to :: "(real \<Rightarrow> real) \<Rightarrow> Point \<Rightarrow> Point \<Rightarrow> py_error + float64" where
  "distance_to pw self other =
     bind_err (float_square pw (float_sub (pt_x self) (pt_x other))) (\<lambda>sx.
     bind_err (float_square pw (float_sub (pt_y self) (pt_y other))) (\<lambda>sy.
     float_sqrt (float_add sx sy)))"

definition Point_add :: "Point \<Rightarrow> Point \<Rightarrow> Point" where
  "Point_add self other =
     \<lparr>pt_x = float_add (pt_x self) (pt_x other), pt_y = float_add (pt_y self) (pt_y other)\<rparr>"

definition Point_sub :: "Point \<Rightarrow> Point \<Rightarrow> Point" where
  "Point_sub self other =
     \<lparr>pt_x = float_sub (pt_x self) (pt_x other), pt_y = float_sub (pt_y self) (pt_y other)\<rparr>"

definition Point_mul :: "Point \<Rightarrow> float64 \<Rightarrow> Point" where
  "Point_mul self scalar =
     \<lparr>pt_x = float_mul (pt_x self) scalar, pt_y = float_mul (pt_y self) scalar\<rparr>"

definition Point_rmul :: "float64 \<Rightarrow> Point \<Rightarrow> Point" where
  "Point_rmul scalar self = Point_mul self scalar"

text \<open>
  \<^verbatim>\<open>quadratic_bezier\<close>: the ints 1 and 2 are converted to floats by the operations
  they enter, and the products associate to the left.
\<close>

definition quadratic_bezier :: "Point \<Rightarrow> Point \<Rightarrow> Point \<Rightarrow> float64 \<Rightarrow> Point" where
  "quadratic_bezier p0 p1 p2 t =
     (let one_minus_t = float_sub (Fin 1) t
      in Point_add
           (Point_add (Point_rmul (float_mul one_minus_t one_minus_t) p0)
                      (Point_rmul (float_mul (float_mul (Fin 2) one_minus_t) t) p1))
           (Point_rmul (float_mul t t) p2))"

text \<open>
  The loop of \<^verbatim>\<open>decompose_quadratic_bezier\<close> over \<^verbatim>\<open>range(num_segments + 1)\<close>. The true
  division \<^verbatim>\<open>i / num_segments\<close> raises when \<^verbatim>\<open>num_segments\<close> is zero; with a negative
  \<^verbatim>\<open>num_segments\<close> the range is empty and the body never runs.
\<close>

fun decompose_loop :: "Point \<Rightarrow> Point \<Rightarrow> Point \<Rightarrow> int \<Rightarrow> int list \<Rightarrow> py_error + Point list" where
  "decompose_loop p0 p1 p2 num_segments [] = Inr []"
| "decompose_loop p0 p1 p2 num_segments (i # rest) =
     bind_err (int_truediv i num_segments) (\<lambda>t.
     bind_err (decompose_loop p0 p1 p2 num_segments rest) (\<lambda>points.
     Inr (quadratic_bezier p0 p1 p2 t # points)))"

definition decompose_quadratic_bezier :: "Point \<Rightarrow> Point \<Rightarrow> Point \<Rightarrow> int \<Rightarrow> py_error + Point list" where
  "decompose_quadratic_bezier p0 p1 p2 num_segments =
     decompose_loop p0 p1 p2 num_segments [0..num_segments]"

text \<open>
  \<^verbatim>\<open>adaptive_decompose_quadratic\<close> in its three steps: the quotient
  \<^verbatim>\<open>rough_length / max_segment_length\<close>, the value of \<^verbatim>\<open>num_segments\<close> after its
  second assignment, and the decomposition with it.
\<close>

definition segment_quotient ::
    "(real \<Rightarrow> real) \<Rightarrow> Point \<Rightarrow> Point \<Rightarrow> Point \<Rightarrow> float64 \<Rightarrow> py_error + float64" where
  "segment_quotient pw p0 p1 p2 max_segment_length =
     bind_err (distance_to pw p0 p1) (\<lambda>d01.
     bind_err (distance_to pw p1 p2) (\<lambda>d12.
     float_div (float_add d01 d12) max_segment_length))"

definition adaptive_num_segments ::
    "(real \<Rightarrow> real) \<Rightarrow> Point \<Rightarrow> Point \<Rightarrow> Point \<Rightarrow> float64 \<Rightarrow> int \<Rightarrow> int \<Rightarrow> py_error + int" where
  "adaptive_num_segments pw p0 p1 p2 max_segment_length min_segments max_segments =
     bind_err (segment_quotient pw p0 p1 p2 max_segment_length) (\<lambda>ratio.
     bind_err (py_int ratio) (\<lambda>num_segments.
     Inr (max min_segments (min max_segments num_segments))))"

definition adaptive_decompose_quadratic ::
    "(real \<Rightarrow> real) \<Rightarrow> Point \<Rightarrow> Point \<Rightarrow> Point \<Rightarrow> float64 \<Rightarrow> int \<Rightarrow> int \<Rightarrow>
       py_error + Point list" where
  "adaptive_decompose_quadratic pw p0 p1 p2 max_segment_length min_segments max_segments =
     bind_err (adaptive_num_segments pw p0 p1 p2 max_segment_length min_segments max_segments)
       (decompose_quadratic_bezier p0 p1 p2)"

text \<open>
  The segment count in the words of the specification:
  \<^verbatim>\<open>clamp(round(estimate / max_segment_length), min_segments, max_segments)\<close>, with the
  rounding of Python's \<^verbatim>\<open>round\<close>, to the nearest int and ties to the even one.
\<close>

definition spec_segment_count :: "real \<Rightarrow> int \<Rightarrow> int \<Rightarrow> int" where
  "spec_segment_count ratio min_segments max_segments =
     max min_segments (min max_segments (round_half_even ratio))"

text \<open>A point whose two coordinates are finite numbers of the format.\<close>

definition finite_point :: "Point \<Rightarrow> bool" where
  "finite_point p \<longleftrightarrow>
     (\<exists>a b. is_double a \<and> is_double b \<and> p = \<lparr>pt_x = Fin a, pt_y = Fin b\<rparr>)"

text \<open>A point whose coordinates are finite and of magnitude at most \<^verbatim>\<open>2**500\<close>.\<close>

definition bounded_point :: "Point \<Rightarrow> bool" where
  "bounded_point p \<longleftrightarrow>
     (\<exists>a b. \<bar>a\<bar> \<le> 2 ^ 500 \<and> \<bar>b\<bar> \<le> 2 ^ 500 \<and> p = \<lparr>pt_x = Fin a, pt_y = Fin b\<rparr>)"

section \<open>Serialization (core/models.py)\<close>

text \<open>
  The values that \<^verbatim>\<open>to_dict\<close> builds and \<^verbatim>\<open>from_dict\<close> reads. A dict is an association
  list in insertion order, looked up by key.
\<close>

datatype pyval =
    PNone
  | PBool bool
  | PFloat real
  | PStr string
  | PList "pyval list"
  | PDict "(string \<times> pyval) list"

fun map_err :: "('a \<Rightarrow> py_error + 'b) \<Rightarrow> 'a list \<Rightarrow> py_error + 'b list" where
  "map_err f [] = Inr []"
| "map_err f (v # vs) =
     bind_err (f v) (\<lambda>r. bind_err (map_err f vs) (\<lambda>rs. Inr (r # rs)))"

text \<open>\<^verbatim>\<open>data[key]\<close> and \<^verbatim>\<open>data.get(key, default)\<close>.\<close>

definition dict_item :: "(string \<times> pyval) list \<Rightarrow> string \<Rightarrow> py_error + pyval" where
  "dict_item d k = (case map_of d k of None \<Rightarrow> Inl (KeyError k) | Some v \<Rightarrow> Inr v)"

definition dict_get :: "(string \<times> pyval) list \<Rightarrow> string \<Rightarrow> pyval \<Rightarrow> pyval" where
  "dict_get d k dflt = (case map_of d k of None \<Rightarrow> dflt | Some v \<Rightarrow> v)"

text \<open>
  The dataclass fields are typed in the records. Python stores whatever value the dict
  holds; a value of another type than the field's has no counterpart in the record, and
  the model stops there with \<open>TypeError\<close>.
\<close>

fun as_float :: "pyval \<Rightarrow> py_error + real" where
  "as_float (PFloat v) = Inr v"
| "as_float _ = Inl TypeError"

fun as_optional_float :: "pyval \<Rightarrow> py_error + real option" where
  "as_optional_float PNone = Inr None"
| "as_optional_float (PFloat v) = Inr (Some v)"
| "as_optional_float _ = Inl TypeError"

fun as_bool :: "pyval \<Rightarrow> py_error + bool" where
  "as_bool (PBool b) = Inr b"
| "as_bool _ = Inl TypeError"

fun as_str :: "pyval \<Rightarrow> py_error + string" where
  "as_str (PStr s) = Inr s"
| "as_str _ = Inl TypeError"

fun as_list :: "pyval \<Rightarrow> py_error + pyval list" where
  "as_list (PList vs) = Inr vs"
| "as_list _ = Inl TypeError"

text \<open>The \<^verbatim>\<open>.value\<close> of each enumeration member and the lookup by value, \<^verbatim>\<open>Enum(value)\<close>.\<close>

fun MotionType_value :: "MotionType \<Rightarrow> string" where
  "MotionType_value START = ''start''"
| "MotionType_value MOVE_TO_POSE = ''moveToPose''"
| "MotionType_value MOVE_VERTICAL = ''moveVertical''"
| "MotionType_value ROTATE_TO = ''rotateTo''"

definition MotionType_of :: "pyval \<Rightarrow> py_error + MotionType" where
  "MotionType_of v =
     (if v = PStr ''start'' then Inr START
      else if v = PStr ''moveToPose'' then Inr MOVE_TO_POSE
      else if v = PStr ''moveVertical'' then Inr MOVE_VERTICAL
      else if v = PStr ''rotateTo'' then Inr ROTATE_TO
      else Inl ValueError)"

fun HeadingMode_value :: "HeadingMode \<Rightarrow> string" where
  "HeadingMode_value AUTO = ''auto''"
| "HeadingMode_value MANUAL = ''manual''"

definition HeadingMode_of :: "pyval \<Rightarrow> py_error + HeadingMode" where
  "HeadingMode_of v =
     (if v = PStr ''auto'' then Inr AUTO
      else if v = PStr ''manual'' then Inr MANUAL
      else Inl ValueError)"

fun Side_value :: "Side \<Rightarrow> string" where
  "Side_value LEFT = ''left''"
| "Side_value RIGHT = ''right''"
| "Side_value FULL = ''full''"

definition Side_of :: "pyval \<Rightarrow> py_error + Side" where
  "Side_of v =
     (if v = PStr ''left'' then Inr LEFT
      else if v = PStr ''right'' then Inr RIGHT
      else if v = PStr ''full'' then Inr FULL
      else Inl ValueError)"

fun Alliance_value :: "Alliance \<Rightarrow> string" where
  "Alliance_value RED = ''red''"
| "Alliance_value BLUE = ''blue''"

definition Alliance_of :: "pyval \<Rightarrow> py_error + Alliance" where
  "Alliance_of v =
     (if v = PStr ''red'' then Inr RED
      else if v = PStr ''blue'' then Inr BLUE
      else Inl ValueError)"

definition Waypoint_to_dict :: "Waypoint \<Rightarrow> pyval" where
  "Waypoint_to_dict w =
     PDict [(''x'', PFloat (wp_x w)),
            (''y'', PFloat (wp_y w)),
            (''heading'', (case heading w of None \<Rightarrow> PNone | Some h \<Rightarrow> PFloat h)),
            (''heading_mode'', PStr (HeadingMode_value (heading_mode w))),
            (''motion_type'', PStr (MotionType_value (motion_type w))),
            (''reverse'', PBool (reverse w)),
            (''intaking'', PBool (intaking w)),
            (''conveyor'', PBool (conveyor w)),
            (''commands_after'', PList (map PStr (commands_after w)))]"

text \<open>
  \<^verbatim>\<open>Waypoint.from_dict\<close>: the keyword arguments are evaluated in the order written, so
  the first failing one decides the exception.
\<close>

fun Waypoint_from_dict :: "pyval \<Rightarrow> py_error + Waypoint" where
  "Waypoint_from_dict (PDict d) =
     bind_err (bind_err (dict_item d ''x'') as_float) (\<lambda>vx.
     bind_err (bind_err (dict_item d ''y'') as_float) (\<lambda>vy.
     bind_err (as_optional_float (dict_get d ''heading'' PNone)) (\<lambda>vh.
     bind_err (HeadingMode_of (dict_get d ''heading_mode'' (PStr ''auto''))) (\<lambda>vhm.
     bind_err (MotionType_of (dict_get d ''motion_type'' (PStr ''moveToPose''))) (\<lambda>vmt.
     bind_err (as_bool (dict_get d ''reverse'' (PBool False))) (\<lambda>vr.
     bind_err (as_bool (dict_get d ''intaking'' (PBool False))) (\<lambda>vi.
     bind_err (as_bool (dict_get d ''conveyor'' (PBool False))) (\<lambda>vc.
     bind_err (bind_err (as_list (dict_get d ''commands_after'' (PList []))) (map_err as_str))
       (\<lambda>vcmds.
     Inr \<lparr>wp_x = vx, wp_y = vy, heading = vh, heading_mode = vhm, motion_type = vmt,
          reverse = vr, intaking = vi, conveyor = vc, commands_after = vcmds\<rparr>)))))))))"
| "Waypoint_from_dict _ = Inl TypeError"

definition Path_to_dict :: "Path \<Rightarrow> pyval" where
  "Path_to_dict p =
     PDict [(''name'', PStr (name p)),
            (''alliance'', PStr (Alliance_value (alliance p))),
            (''side'', PStr (Side_value (side p))),
            (''waypoints'', PList (map Waypoint_to_dict (waypoints p)))]"

fun Path_from_dict :: "pyval \<Rightarrow> py_error + Path" where
  "Path_from_dict (PDict d) =
     bind_err (bind_err (dict_item d ''name'') as_str) (\<lambda>vn.
     bind_err (Alliance_of (dict_get d ''alliance'' (PStr ''red''))) (\<lambda>va.
     bind_err (Side_of (dict_get d ''side'' (PStr ''left''))) (\<lambda>vs.
     bind_err (bind_err (as_list (dict_get d ''waypoints'' (PList []))) (map_err Waypoint_from_dict))
       (\<lambda>vws.
     Inr \<lparr>name = vn, alliance = va, side = vs, waypoints = vws\<rparr>))))"
| "Path_from_dict _ = Inl TypeError"

record Project =
  season :: string
  paths :: "Path list"

definition Project_to_dict :: "Project \<Rightarrow> pyval" where
  "Project_to_dict pr =
     PDict [(''version'', PStr ''1.0.0''),
            (''season'', PStr (season pr)),
            (''paths'', PList (map Path_to_dict (paths pr)))]"

fun Project_from_dict :: "pyval \<Rightarrow> py_error + Project" where
  "Project_from_dict (PDict d) =
     bind_err (as_str (dict_get d ''season'' (PStr ''pushback_2026''))) (\<lambda>vseason.
     bind_err (bind_err (as_list (dict_get d ''paths'' (PList []))) (map_err Path_from_dict))
       (\<lambda>vps.
     Inr \<lparr>season = vseason, paths = vps\<rparr>))"
| "Project_from_dict _ = Inl TypeError"

text \<open>The coupling of \<^verbatim>\<open>heading\<close> and \<^verbatim>\<open>heading_mode\<close> that the data model asks for.\<close>

definition heading_invariant :: "Waypoint \<Rightarrow> bool" where
  "heading_invariant w \<longleftrightarrow>
     ((heading_mode w = MANUAL) = (heading w \<noteq> None)) \<and>
     (heading_mode w = AUTO \<longrightarrow> heading w = None)"

text \<open>
  \<^verbatim>\<open>Waypoint.from_dict\<close> as Python runs it. The dataclass checks no types: every
  attribute holds whatever value the dict holds (a string or a boolean for \<^verbatim>\<open>heading\<close>
  as well), so the object built is a record of values. Only the two enumeration
  constructors inspect their argument and raise \<^verbatim>\<open>ValueError\<close>, the two subscripts
  raise \<^verbatim>\<open>KeyError\<close>, and subscripting anything but a dict raises \<^verbatim>\<open>TypeError\<close>.
  \<open>Waypoint_from_dict\<close> above is this function on the dicts whose values have the
  types of the fields.
\<close>

record RawWaypoint =
  raw_x :: pyval
  raw_y :: pyval
  raw_heading :: pyval
  raw_heading_mode :: HeadingMode
  raw_motion_type :: MotionType
  raw_reverse :: pyval
  raw_intaking :: pyval
  raw_conveyor :: pyval
  raw_commands_after :: pyval

fun Waypoint_from_dict_raw :: "pyval \<Rightarrow> py_error + RawWaypoint" where
  "Waypoint_from_dict_raw (PDict d) =
     bind_err (dict_item d ''x'') (\<lambda>vx.
     bind_err (dict_item d ''y'') (\<lambda>vy.
     bind_err (HeadingMode_of (dict_get d ''heading_mode'' (PStr ''auto''))) (\<lambda>vhm.
     bind_err (MotionType_of (dict_get d ''motion_type'' (PStr ''moveToPose''))) (\<lambda>vmt.
     Inr \<lparr>raw_x = vx, raw_y = vy,
          raw_heading = dict_get d ''heading'' PNone,
          raw_heading_mode = vhm, raw_motion_type = vmt,
          raw_reverse = dict_get d ''reverse'' (PBool False),
          raw_intaking = dict_get d ''intaking'' (PBool False),
          raw_conveyor = dict_get d ''conveyor'' (PBool False),
          raw_commands_after = dict_get d ''commands_after'' (PList [])\<rparr>))))"
| "Waypoint_from_dict_raw _ = Inl TypeError"

text \<open>A typed waypoint as the object it is.\<close>

definition raw_of :: "Waypoint \<Rightarrow> RawWaypoint" where
  "raw_of w =
     \<lparr>raw_x = PFloat (wp_x w), raw_y = PFloat (wp_y w),
      raw_heading = (case heading w of None \<Rightarrow> PNone | Some h \<Rightarrow> PFloat h),
      raw_heading_mode = heading_mode w, raw_motion_type = motion_type w,
      raw_reverse = PBool (reverse w), raw_intaking = PBool (intaking w),
      raw_conveyor = PBool (conveyor w),
      raw_commands_after = PList (map PStr (commands_after w))\<rparr>"

text \<open>
  The coupling of \<^verbatim>\<open>heading\<close> and \<^verbatim>\<open>heading_mode\<close> on the object: the heading is a
  concrete value when it is not \<^verbatim>\<open>None\<close>.
\<close>

definition raw_heading_invariant :: "RawWaypoint \<Rightarrow> bool" where
  "raw_heading_invariant w \<longleftrightarrow>
     ((raw_heading_mode w = MANUAL) = (raw_heading w \<noteq> PNone)) \<and>
     (raw_heading_mode w = AUTO \<longrightarrow> raw_heading w = PNone)"


section \<open>The START invariant\<close>

lemma head_only_START_invariant: "head_only_START ws \<Longrightarrow> START_invariant ws"
  by (cases ws) (auto simp: head_only_START_def START_invariant_def count_START_def filter_empty_conv)

lemma head_only_START_add: "head_only_START (waypoints p) \<Longrightarrow>
    head_only_START (waypoints (snd (add_waypoint p px py)))"
  by (cases "waypoints p") (auto simp: head_only_START_def add_waypoint_def Let_def Waypoint_init_def)

lemma head_only_START_pop_Suc:
  "head_only_START (w # rest) \<Longrightarrow> head_only_START (pop_at (Suc i) (w # rest))"
  by (auto simp: head_only_START_def pop_at_def dest: in_set_takeD in_set_dropD)

lemma head_only_START_promote:
  "head_only_START (w # v # rest) \<Longrightarrow> head_only_START (v\<lparr>motion_type := START\<rparr> # rest)"
  by (auto simp: head_only_START_def)

lemma head_only_START_remove: 
  assumes "head_only_START (waypoints p)"
  shows "head_only_START (waypoints (remove_waypoint p i))"
proof (cases "0 \<le> i \<and> i < int (length (waypoints p))")
  case False
  then have "remove_waypoint p i = p" by (auto simp: remove_waypoint_def)
  then show ?thesis using assms by simp
next
  case inr: True
  then obtain w rest where ws: "waypoints p = w # rest"
    by (cases "waypoints p") auto
  show ?thesis
  proof (cases "i = 0")
    case True
    show ?thesis
    proof (cases rest)
      case Nil
      then show ?thesis using ws True
        by (simp add: remove_waypoint_def pop_at_def head_only_START_def)
    next
      case (Cons v rest')
      then show ?thesis using ws True assms head_only_START_promote [of w v rest']
        by (simp add: remove_waypoint_def pop_at_def)
    qed
  next
    case False
    then obtain k where k: "nat i = Suc k" using inr by (cases "nat i") auto
    then show ?thesis using ws False inr assms head_only_START_pop_Suc [of w rest k]
      by (simp add: remove_waypoint_def)
  qed
qed

lemma head_only_START_run_ops:
  "head_only_START (waypoints p) \<Longrightarrow> head_only_START (waypoints (run_ops p ops))"
unfolding run_ops_def
proof (induction ops arbitrary: p)
  case Nil
  then show ?case by simp
next
  case (Cons a ops)
  have "head_only_START (waypoints (apply_op p a))"
    using Cons.prems by (cases a) (simp_all add: head_only_START_add head_only_START_remove)
  then show ?case using Cons.IH by simp
qed

text \<open>
  C1. A path that starts empty and undergoes any finite sequence of \<^verbatim>\<open>add_waypoint\<close> and
  \<^verbatim>\<open>remove_waypoint\<close> calls has at most one waypoint of motion type START, and when
  it is not empty its waypoint at index 0 has motion type START.
\<close>

theorem START_invariant_after_ops:
  "waypoints p = [] \<Longrightarrow>
   count_START (waypoints (run_ops p ops)) \<le> 1 \<and>
   (waypoints (run_ops p ops) \<noteq> [] \<longrightarrow> motion_type (waypoints (run_ops p ops) ! 0) = START)"
proof -
  assume "waypoints p = []"
  then have "head_only_START (waypoints p)" by (simp add: head_only_START_def)
  then have "START_invariant (waypoints (run_ops p ops))"
    by (intro head_only_START_invariant head_only_START_run_ops)
  then show ?thesis by (simp add: START_invariant_def)
qed

theorem START_invariant_after_ops_witness:
  "waypoints (Path_init ''Auto1'') = [] \<and>
   waypoints (run_ops (Path_init ''Auto1'')
      [AddWaypoint 0 0, AddWaypoint (-10) 24, RemoveWaypoint 0, AddWaypoint 5 5]) \<noteq> [] \<and>
   count_START (waypoints (run_ops (Path_init ''Auto1'')
      [AddWaypoint 0 0, AddWaypoint (-10) 24, RemoveWaypoint 0, AddWaypoint 5 5])) \<le> 1 \<and>
   motion_type (waypoints (run_ops (Path_init ''Auto1'')
      [AddWaypoint 0 0, AddWaypoint (-10) 24, RemoveWaypoint 0, AddWaypoint 5 5]) ! 0) = START"
proof -
  have empty: "waypoints (Path_init ''Auto1'') = []"
    by (simp add: Path_init_def)
  have nonempty: "waypoints (run_ops (Path_init ''Auto1'')
      [AddWaypoint 0 0, AddWaypoint (-10) 24, RemoveWaypoint 0, AddWaypoint 5 5]) \<noteq> []"
    by (simp add: run_ops_def add_waypoint_def remove_waypoint_def Path_init_def pop_at_def
        Let_def)
  show ?thesis
    using empty nonempty
      START_invariant_after_ops [OF empty,
        of "[AddWaypoint 0 0, AddWaypoint (-10) 24, RemoveWaypoint 0, AddWaypoint 5 5]"]
    by blast
qed

section \<open>Bounded history\<close>

lemma trim_history_drop:
  "0 \<le> mh \<Longrightarrow> trim_history mh es = Inr (drop (length es - nat mh) es)"
proof (induction es)
  case Nil
  then show ?case by simp
next
  case (Cons e es)
  show ?case
  proof (cases "int (length (e # es)) > mh")
    case True
    then have "length (e # es) - nat mh = Suc (length es - nat mh)"
      using Cons.prems by (simp add: Suc_diff_le nat_le_iff)
    then show ?thesis using True Cons by simp
  next
    case False
    then have "length (e # es) - nat mh = 0" using Cons.prems by simp
    then show ?thesis using False by simp
  qed
qed

lemma save_state_keeps_newest:
  "max_history m = int n \<Longrightarrow>
   save_state m s d =
     Inr (m\<lparr>undo_stack := drop (Suc (length (undo_stack m)) - n)
                              (undo_stack m @ [\<lparr>description = d, state = s\<rparr>]),
            redo_stack := []\<rparr>)"
  by (simp add: save_state_def Let_def trim_history_drop)

lemma drop_keep_newest:
  "drop (length (drop (length xs - n) xs @ ys) - n) (drop (length xs - n) xs @ ys) =
   drop (length (xs @ ys) - n) (xs @ ys)"
proof (cases "length xs \<le> n")
  case True
  then show ?thesis by simp
next
  case False
  define k where "k = length xs - n"
  have len: "length (drop k xs) = n" using False by (simp add: k_def)
  have app: "drop k xs @ ys = drop k (xs @ ys)" by (simp add: k_def)
  have "drop (length (drop k xs @ ys) - n) (drop k xs @ ys) = drop (length ys) (drop k xs @ ys)"
    using len by simp
  also have "\<dots> = drop (length ys) (drop k (xs @ ys))"
    by (simp only: app)
  also have "\<dots> = drop (length ys + k) (xs @ ys)"
    by (rule drop_drop)
  also have "length ys + k = length (xs @ ys) - n"
    using False by (simp add: k_def)
  finally show ?thesis by (simp only: k_def)
qed

lemma save_all_keeps_newest:
  "max_history m = int n \<Longrightarrow> length (undo_stack m) \<le> n \<Longrightarrow>
   \<exists>m'. save_all m saves = Inr m' \<and> max_history m' = int n \<and>
        undo_stack m' = drop (length (undo_stack m @ map snapshot_of saves) - n)
                             (undo_stack m @ map snapshot_of saves)"
proof (induction saves arbitrary: m)
  case Nil
  then show ?case by simp
next
  case (Cons sd saves)
  obtain s d where sd: "sd = (s, d)" by (cases sd)
  define m1 where "m1 = m\<lparr>undo_stack := drop (Suc (length (undo_stack m)) - n)
                              (undo_stack m @ [snapshot_of sd]), redo_stack := []\<rparr>"
  have step: "save_state m s d = Inr m1"
    using save_state_keeps_newest [OF Cons.prems(1), of s d]
    by (simp add: m1_def sd snapshot_of_def)
  have mh1: "max_history m1 = int n" using Cons.prems(1) by (simp add: m1_def)
  have len1: "length (undo_stack m1) \<le> n" by (simp add: m1_def)
  from Cons.IH [OF mh1 len1] obtain m' where
    m': "save_all m1 saves = Inr m'" "max_history m' = int n"
      "undo_stack m' = drop (length (undo_stack m1 @ map snapshot_of saves) - n)
                             (undo_stack m1 @ map snapshot_of saves)"
    by blast
  have us1: "undo_stack m1 = drop (length (undo_stack m @ [snapshot_of sd]) - n)
                               (undo_stack m @ [snapshot_of sd])"
    by (simp add: m1_def)
  have "undo_stack m' = drop (length ((undo_stack m @ [snapshot_of sd]) @ map snapshot_of saves) - n)
                             ((undo_stack m @ [snapshot_of sd]) @ map snapshot_of saves)"
    unfolding m'(3) us1 by (rule drop_keep_newest)
  then show ?case using m'(1,2) step by (simp add: sd)
qed

text \<open>
  C3. For an undo manager of capacity \<open>n\<close> whose undo stack holds at most \<open>n\<close> entries
  (the fresh manager, and every manager reached from it), any sequence of \<^verbatim>\<open>save_state\<close>
  calls completes, the undo stack then holds at most \<open>n\<close> entries, and these are the
  newest \<open>n\<close> of the old entries followed by the new snapshots, in order: entries are
  dropped from the oldest end.
\<close>

theorem undo_stack_bounded:
  assumes "max_history m = int n" and "length (undo_stack m) \<le> n"
  shows "\<exists>m'. save_all m saves = Inr m' \<and>
          length (undo_stack m') \<le> n \<and>
          undo_stack m' = drop (length (undo_stack m @ map snapshot_of saves) - n)
                               (undo_stack m @ map snapshot_of saves)"
proof -
  from save_all_keeps_newest [OF assms, of saves] obtain m' where
    m': "save_all m saves = Inr m'"
      "undo_stack m' = drop (length (undo_stack m @ map snapshot_of saves) - n)
                            (undo_stack m @ map snapshot_of saves)"
    by blast
  have "length (undo_stack m') \<le> n" using assms(2) by (simp add: m'(2))
  then show ?thesis using m' by blast
qed

theorem undo_stack_bounded_witness:
  "max_history (UndoManager_init 2 :: nat UndoManager) = int 2 \<and>
   length (undo_stack (UndoManager_init 2 :: nat UndoManager)) \<le> 2 \<and>
   save_all (UndoManager_init 2) [(1::nat, ''Add''), (2, ''Move''), (3, ''Remove'')] =
     Inr \<lparr>max_history = 2,
          undo_stack = [\<lparr>description = ''Move'', state = 2\<rparr>,
                        \<lparr>description = ''Remove'', state = 3\<rparr>],
          redo_stack = []\<rparr>"
proof -
  have mh: "max_history (UndoManager_init 2 :: nat UndoManager) = int 2"
    by (simp add: UndoManager_init_def)
  have len: "length (undo_stack (UndoManager_init 2 :: nat UndoManager)) \<le> 2"
    by (simp add: UndoManager_init_def)
  have run: "save_all (UndoManager_init 2) [(1::nat, ''Add''), (2, ''Move''), (3, ''Remove'')] =
     Inr \<lparr>max_history = 2,
          undo_stack = [\<lparr>description = ''Move'', state = 2\<rparr>,
                        \<lparr>description = ''Remove'', state = 3\<rparr>],
          redo_stack = []\<rparr>"
    by (simp add: UndoManager_init_def save_state_def Let_def)
  show ?thesis
    using mh len run
      undo_stack_bounded [OF mh len, of "[(1::nat, ''Add''), (2, ''Move''), (3, ''Remove'')]"]
    by blast
qed

section \<open>Undo and redo\<close>

text \<open>
  C4. With fewer than two entries on the undo stack, \<^verbatim>\<open>undo\<close> returns None and leaves
  both stacks as they are; otherwise it moves the top entry of the undo stack onto the
  redo stack and returns the state of the entry below it, the new top.
\<close>

theorem undo_needs_two_entries:
  "(length (undo_stack m) < 2 \<longrightarrow> undo m = (None, m)) \<and>
   (\<forall>older prev cur. undo_stack m = older @ [prev, cur] \<longrightarrow>
      undo m = (Some (state prev),
                m\<lparr>undo_stack := older @ [prev], redo_stack := redo_stack m @ [cur]\<rparr>)) \<and>
   (2 \<le> length (undo_stack m) \<longrightarrow>
      (\<exists>older prev cur. undo_stack m = older @ [prev, cur]))"
proof (intro conjI allI impI)
  assume "length (undo_stack m) < 2"
  then show "undo m = (None, m)" by (simp add: undo_def can_undo_def)
next
  fix older prev cur
  assume us: "undo_stack m = older @ [prev, cur]"
  have "butlast (older @ [prev, cur]) = older @ [prev]"
    by (simp add: butlast_append)
  then show "undo m = (Some (state prev),
                m\<lparr>undo_stack := older @ [prev], redo_stack := redo_stack m @ [cur]\<rparr>)"
    using us by (simp add: undo_def can_undo_def Let_def)
next
  assume len: "2 \<le> length (undo_stack m)"
  then have ne: "undo_stack m \<noteq> []" by auto
  then have "butlast (undo_stack m) \<noteq> []"
    using len by (cases "undo_stack m" rule: rev_cases) auto
  then have "butlast (undo_stack m) =
      butlast (butlast (undo_stack m)) @ [last (butlast (undo_stack m))]"
    by simp
  moreover have "undo_stack m = butlast (undo_stack m) @ [last (undo_stack m)]"
    using ne by simp
  ultimately have "undo_stack m = butlast (butlast (undo_stack m)) @
      [last (butlast (undo_stack m)), last (undo_stack m)]"
    by (metis append.assoc append_Cons append_Nil)
  then show "\<exists>older prev cur. undo_stack m = older @ [prev, cur]" by blast
qed

theorem undo_needs_two_entries_witness:
  "length (undo_stack \<lparr>max_history = 50,
      undo_stack = [\<lparr>description = ''Opened project'', state = (1::nat)\<rparr>],
      redo_stack = []\<rparr>) < 2 \<and>
   undo \<lparr>max_history = 50,
      undo_stack = [\<lparr>description = ''Opened project'', state = (1::nat)\<rparr>],
      redo_stack = []\<rparr> =
     (None, \<lparr>max_history = 50,
      undo_stack = [\<lparr>description = ''Opened project'', state = (1::nat)\<rparr>],
      redo_stack = []\<rparr>) \<and>
   2 \<le> length (undo_stack \<lparr>max_history = 50,
      undo_stack = [\<lparr>description = ''Opened project'', state = (1::nat)\<rparr>,
                    \<lparr>description = ''Add waypoint'', state = 2\<rparr>,
                    \<lparr>description = ''Move waypoint'', state = 3\<rparr>],
      redo_stack = []\<rparr>) \<and>
   undo \<lparr>max_history = 50,
      undo_stack = [\<lparr>description = ''Opened project'', state = (1::nat)\<rparr>,
                    \<lparr>description = ''Add waypoint'', state = 2\<rparr>,
                    \<lparr>description = ''Move waypoint'', state = 3\<rparr>],
      redo_stack = []\<rparr> =
     (Some 2, \<lparr>max_history = 50,
      undo_stack = [\<lparr>description = ''Opened project'', state = (1::nat)\<rparr>,
                    \<lparr>description = ''Add waypoint'', state = 2\<rparr>],
      redo_stack = [\<lparr>description = ''Move waypoint'', state = 3\<rparr>]\<rparr>)"
  using undo_needs_two_entries [of "\<lparr>max_history = 50,
      undo_stack = [\<lparr>description = ''Opened project'', state = (1::nat)\<rparr>],
      redo_stack = []\<rparr>"]
    undo_needs_two_entries [of "\<lparr>max_history = 50,
      undo_stack = [\<lparr>description = ''Opened project'', state = (1::nat)\<rparr>,
                    \<lparr>description = ''Add waypoint'', state = 2\<rparr>,
                    \<lparr>description = ''Move waypoint'', state = 3\<rparr>],
      redo_stack = []\<rparr>",
      THEN conjunct2, THEN conjunct1, rule_format,
      of "[\<lparr>description = ''Opened project'', state = (1::nat)\<rparr>]"
         "\<lparr>description = ''Add waypoint'', state = 2\<rparr>"
         "\<lparr>description = ''Move waypoint'', state = 3\<rparr>"]
  by simp

text \<open>
  C10. When \<^verbatim>\<open>can_undo\<close> holds, \<^verbatim>\<open>undo\<close> followed at once by \<^verbatim>\<open>redo\<close> returns the
  state that was on top of the undo stack before the undo, and puts the undo stack (and
  the redo stack with it) back to the entries it held before.
\<close>

theorem undo_then_redo:
  "can_undo m \<Longrightarrow>
   fst (redo (snd (undo m))) = Some (state (last (undo_stack m))) \<and>
   undo_stack (snd (redo (snd (undo m)))) = undo_stack m \<and>
   snd (redo (snd (undo m))) = m"
proof -
  assume "can_undo m"
  then have ne: "undo_stack m \<noteq> []" by (auto simp: can_undo_def)
  have u: "snd (undo m) = m\<lparr>undo_stack := butlast (undo_stack m),
                            redo_stack := redo_stack m @ [last (undo_stack m)]\<rparr>"
    using \<open>can_undo m\<close> by (simp add: undo_def Let_def)
  have "redo (snd (undo m)) = (Some (state (last (undo_stack m))), m)"
    unfolding u using ne by (simp add: redo_def can_redo_def Let_def)
  then show ?thesis by simp
qed

theorem undo_then_redo_witness:
  "can_undo \<lparr>max_history = 50,
      undo_stack = [\<lparr>description = ''Opened project'', state = (1::nat)\<rparr>,
                    \<lparr>description = ''Add waypoint'', state = 2\<rparr>],
      redo_stack = [\<lparr>description = ''Move waypoint'', state = 3\<rparr>]\<rparr> \<and>
   redo (snd (undo \<lparr>max_history = 50,
      undo_stack = [\<lparr>description = ''Opened project'', state = (1::nat)\<rparr>,
                    \<lparr>description = ''Add waypoint'', state = 2\<rparr>],
      redo_stack = [\<lparr>description = ''Move waypoint'', state = 3\<rparr>]\<rparr>)) =
    (Some 2, \<lparr>max_history = 50,
      undo_stack = [\<lparr>description = ''Opened project'', state = (1::nat)\<rparr>,
                    \<lparr>description = ''Add waypoint'', state = 2\<rparr>],
      redo_stack = [\<lparr>description = ''Move waypoint'', state = 3\<rparr>]\<rparr>)"
proof -
  have c: "can_undo \<lparr>max_history = 50,
      undo_stack = [\<lparr>description = ''Opened project'', state = (1::nat)\<rparr>,
                    \<lparr>description = ''Add waypoint'', state = 2\<rparr>],
      redo_stack = [\<lparr>description = ''Move waypoint'', state = 3\<rparr>]\<rparr>"
    by (simp add: can_undo_def)
  show ?thesis using c undo_then_redo [OF c]
    by (simp add: prod_eq_iff)
qed

section \<open>Heading\<close>

lemma atan2_range: "- pi < atan2 a b \<and> atan2 a b \<le> pi"
proof -
  have lb: "- (pi / 2) < arctan (a / b)" and ub: "arctan (a / b) < pi / 2"
    by (rule arctan_lbound, rule arctan_ubound)
  have pi0: "0 < pi" by simp
  consider "b > 0" | "b < 0" "a \<ge> 0" | "b < 0" "a < 0" | "b = 0" "a > 0" | "b = 0" "a < 0"
    | "b = 0" "a = 0"
    by linarith
  then show ?thesis
  proof cases
    case 1
    then have "atan2 a b = arctan (a / b)" by (simp add: atan2_def)
    then show ?thesis using lb ub pi0 by linarith
  next
    case 2
    then have "a / b \<le> 0" by (simp add: divide_nonneg_neg)
    then have le: "arctan (a / b) \<le> 0" by (simp add: arctan_le_zero_iff)
    have "atan2 a b = arctan (a / b) + pi" using 2 by (simp add: atan2_def)
    then show ?thesis using le lb pi0 by linarith
  next
    case 3
    then have "0 < a / b" by (simp add: divide_neg_neg)
    then have gt: "0 < arctan (a / b)" by (simp add: zero_less_arctan_iff)
    have "atan2 a b = arctan (a / b) - pi" using 3 by (simp add: atan2_def)
    then show ?thesis using gt ub pi0 by linarith
  next
    case 4
    then have "atan2 a b = pi / 2" by (simp add: atan2_def)
    then show ?thesis using pi0 by linarith
  next
    case 5
    then have "atan2 a b = - (pi / 2)" by (simp add: atan2_def)
    then show ?thesis using pi0 by linarith
  next
    case 6
    then have "atan2 a b = 0" by (simp add: atan2_def)
    then show ?thesis using pi0 by linarith
  qed
qed

lemma degrees_range: "- 180 < degrees (atan2 a b) \<and> degrees (atan2 a b) \<le> 180"
proof -
  have pi0: "0 < pi" by simp
  have "- pi < atan2 a b" and "atan2 a b \<le> pi" using atan2_range by auto
  then have "- 180 < atan2 a b * 180 / pi" and "atan2 a b * 180 / pi \<le> 180"
    using pi0 by (simp_all add: pos_less_divide_eq pos_divide_le_eq)
  then show ?thesis by (simp add: degrees_def)
qed

lemma hypot_arctan:
  assumes "b \<noteq> 0"
  shows "sqrt (a\<^sup>2 + b\<^sup>2) * cos (arctan (a / b)) = \<bar>b\<bar>"
    and "sqrt (a\<^sup>2 + b\<^sup>2) * sin (arctan (a / b)) = a * \<bar>b\<bar> / b"
proof -
  have "1 + (a / b)\<^sup>2 = (a\<^sup>2 + b\<^sup>2) / b\<^sup>2"
    using assms by (simp add: power_divide add_divide_distrib)
  then have root: "sqrt (1 + (a / b)\<^sup>2) = sqrt (a\<^sup>2 + b\<^sup>2) / \<bar>b\<bar>"
    by (simp add: real_sqrt_divide)
  have pos: "0 < sqrt (a\<^sup>2 + b\<^sup>2)"
    using assms by (simp add: sum_power2_gt_zero_iff)
  show "sqrt (a\<^sup>2 + b\<^sup>2) * cos (arctan (a / b)) = \<bar>b\<bar>"
    using pos assms by (simp add: cos_arctan root)
  show "sqrt (a\<^sup>2 + b\<^sup>2) * sin (arctan (a / b)) = a * \<bar>b\<bar> / b"
    using pos assms by (simp add: sin_arctan root)
qed

lemma atan2_polar:
  "sqrt (a\<^sup>2 + b\<^sup>2) * sin (atan2 a b) = a \<and> sqrt (a\<^sup>2 + b\<^sup>2) * cos (atan2 a b) = b"
proof -
  consider "b > 0" | "b < 0" | "b = 0" "a > 0" | "b = 0" "a < 0" | "b = 0" "a = 0"
    by linarith
  then show ?thesis
  proof cases
    case 1
    then show ?thesis using hypot_arctan [of b a] by (simp add: atan2_def)
  next
    case 2
    then have "b \<noteq> 0" by simp
    from hypot_arctan [OF this, of a] show ?thesis
      using 2 by (simp add: atan2_def sin_add sin_diff cos_add cos_diff)
  next
    case 3
    then show ?thesis by (simp add: atan2_def)
  next
    case 4
    then show ?thesis by (simp add: atan2_def)
  next
    case 5
    then show ?thesis by (simp add: atan2_def)
  qed
qed

lemma heading_cases:
  "calculate_heading fx fy tx ty = degrees (atan2 (tx - fx) (ty - fy)) \<or>
   calculate_heading fx fy tx ty = degrees (atan2 (tx - fx) (ty - fy)) + 360"
  by (simp add: calculate_heading_def Let_def)

lemma heading_polar:
  "sin (calculate_heading fx fy tx ty * pi / 180) = sin (atan2 (tx - fx) (ty - fy)) \<and>
   cos (calculate_heading fx fy tx ty * pi / 180) = cos (atan2 (tx - fx) (ty - fy))"
proof -
  have a: "degrees t * pi / 180 = t" for t by (simp add: degrees_def)
  have b: "(degrees t + 360) * pi / 180 = t + 2 * pi" for t
    by (simp add: degrees_def field_simps)
  show ?thesis using heading_cases [of fx fy tx ty]
    by (elim disjE) (simp_all only: a b sin_periodic cos_periodic)
qed

text \<open>
  Over the reals \<^verbatim>\<open>calculate_heading\<close> returns the \<^verbatim>\<open>atan2\<close> of (\<open>\<Delta>x\<close>, \<open>\<Delta>y\<close>) in
  degrees, moved by a full turn when negative, and the result lies in \<open>[0, 360)\<close>. It
  is the bearing of the target with 0 degrees along +Y and clockwise positive: the
  distance times the sine of the heading is \<open>\<Delta>x\<close> and times its cosine is \<open>\<Delta>y\<close>.
\<close>

theorem calculate_heading_bearing:
  "0 \<le> calculate_heading fx fy tx ty \<and> calculate_heading fx fy tx ty < 360 \<and>
   (calculate_heading fx fy tx ty = degrees (atan2 (tx - fx) (ty - fy)) \<or>
    calculate_heading fx fy tx ty = degrees (atan2 (tx - fx) (ty - fy)) + 360) \<and>
   calculate_distance fx fy tx ty * sin (calculate_heading fx fy tx ty * pi / 180) = tx - fx \<and>
   calculate_distance fx fy tx ty * cos (calculate_heading fx fy tx ty * pi / 180) = ty - fy"
proof -
  have range: "0 \<le> calculate_heading fx fy tx ty \<and> calculate_heading fx fy tx ty < 360"
    using degrees_range [of "tx - fx" "ty - fy"]
    by (simp add: calculate_heading_def Let_def)
  have polar: "calculate_distance fx fy tx ty * sin (calculate_heading fx fy tx ty * pi / 180)
      = tx - fx"
    "calculate_distance fx fy tx ty * cos (calculate_heading fx fy tx ty * pi / 180) = ty - fy"
    using atan2_polar [of "tx - fx" "ty - fy"] heading_polar [of fx fy tx ty]
    by (simp_all add: calculate_distance_def)
  show ?thesis using range heading_cases [of fx fy tx ty] polar by blast
qed

subsection \<open>Double precision\<close>

lemma round_half_even_error: "\<bar>of_int (round_half_even r) - r\<bar> \<le> 1 / 2"
proof -
  have "of_int \<lfloor>r\<rfloor> \<le> r" "r < of_int \<lfloor>r\<rfloor> + 1" by linarith+
  then show ?thesis by (auto simp: round_half_even_def Let_def)
qed

lemma round_to_double_error:
  assumes "v \<noteq> 0"
  shows "\<bar>round_to_double v - v\<bar> \<le> \<bar>v\<bar> / 2 ^ 53"
proof -
  define e where "e = \<lfloor>log 2 \<bar>v\<bar>\<rfloor>"
  define q :: real where "q = 2 powr (of_int e - 52)"
  have qpos: "0 < q" by (simp add: q_def)
  have "2 powr (of_int e) \<le> \<bar>v\<bar>"
    using assms floor_log_eq_powr_iff [of "\<bar>v\<bar>" 2 e] by (simp add: e_def)
  moreover have "q = 2 powr (of_int e) / 2 ^ 52"
    by (simp add: q_def powr_diff)
  ultimately have qle: "q \<le> \<bar>v\<bar> / 2 ^ 52" by (simp add: divide_right_mono)
  have rd: "round_to_double v = q * of_int (round_half_even (v / q))"
    using assms by (simp add: round_to_double_def Let_def q_def e_def)
  have "round_to_double v - v = q * (of_int (round_half_even (v / q)) - v / q)"
    using qpos by (simp add: rd algebra_simps)
  then have "\<bar>round_to_double v - v\<bar> = q * \<bar>of_int (round_half_even (v / q)) - v / q\<bar>"
    using qpos by (simp add: abs_mult)
  also have "\<dots> \<le> q * (1 / 2)"
    using qpos round_half_even_error [of "v / q"] by (intro mult_left_mono) simp_all
  also have "\<dots> \<le> (\<bar>v\<bar> / 2 ^ 52) * (1 / 2)"
    using qle by (intro mult_right_mono) simp_all
  finally show ?thesis by simp
qed

lemma round_to_double_neg:
  assumes "v < 0"
  shows "2 * v \<le> round_to_double v \<and> round_to_double v < 0"
proof -
  have "\<bar>round_to_double v - v\<bar> \<le> \<bar>v\<bar> / 2 ^ 53"
    using assms round_to_double_error [of v] by simp
  moreover have "\<bar>v\<bar> / 2 ^ 53 < \<bar>v\<bar>" using assms by (simp add: field_simps)
  ultimately show ?thesis using assms by linarith
qed

lemma round_to_double_pos:
  assumes "0 < v"
  shows "v / 2 \<le> round_to_double v \<and> round_to_double v \<le> 2 * v"
proof -
  have "\<bar>round_to_double v - v\<bar> \<le> \<bar>v\<bar> / 2 ^ 53"
    using assms round_to_double_error [of v] by simp
  moreover have "\<bar>v\<bar> / 2 ^ 53 \<le> \<bar>v\<bar> / 2" using assms by (simp add: field_simps)
  ultimately show ?thesis using assms by linarith
qed

lemma arctan_ge_self_neg:
  assumes "t < 0"
  shows "t \<le> arctan t"
proof -
  have "\<exists>z. t < z \<and> z < 0 \<and> arctan 0 - arctan t = (0 - t) * inverse (1 + z\<^sup>2)"
    using assms by (intro MVT2) (auto intro: DERIV_arctan)
  then obtain z where z: "arctan 0 - arctan t = (0 - t) * inverse (1 + z\<^sup>2)" by blast
  have "inverse (1 + z\<^sup>2) \<le> 1" by (simp add: inverse_le_1_iff)
  then have "(0 - t) * inverse (1 + z\<^sup>2) \<le> (0 - t) * 1"
    using assms by (intro mult_left_mono) simp_all
  then show ?thesis using z by simp
qed

lemma round_half_even_up:
  assumes "of_int n - 1 / 2 < r" and "r < of_int n"
  shows "round_half_even r = n"
proof -
  have "\<lfloor>r\<rfloor> = n - 1" using assms by (intro floor_unique) simp_all
  moreover have "r - of_int (n - 1) > 1 / 2" using assms by simp
  ultimately show ?thesis by (simp add: round_half_even_def Let_def)
qed

lemma round_to_double_binade:
  assumes "0 < v" and "2 powr (of_int e) \<le> v" and "v < 2 powr (of_int e + 1)"
    and "q = 2 powr (of_int e - 52)"
  shows "round_to_double v = q * of_int (round_half_even (v / q))"
proof -
  have "\<lfloor>log 2 v\<rfloor> = e"
    using assms(1-3) floor_log_eq_powr_iff [of v 2 e] by simp
  then show ?thesis using assms(1,4) by (simp add: round_to_double_def Let_def)
qed

lemma round_to_double_just_below_360:
  assumes "- (1 / 2 ^ 57) < d" and "d < 0"
  shows "round_to_double (d + 360) = 360"
proof -
  define v where "v = d + 360"
  define q :: real where "q = 1 / 2 ^ 44"
  have vpos: "0 < v" and lo: "2 powr (of_int 8) \<le> v" and hi: "v < 2 powr (of_int 8 + 1)"
    using assms by (simp_all add: v_def)
  have q: "q = 2 powr (of_int 8 - 52)"
    by (simp add: q_def powr_minus_divide)
  have scaled: "v / q = 6333186975989760 + d * 2 ^ 44"
    by (simp add: v_def q_def algebra_simps)
  have small: "- (1 / 2) < d * 2 ^ 44" "d * 2 ^ 44 < 0"
    using assms by (simp_all add: field_simps)
  have "round_half_even (6333186975989760 + d * 2 ^ 44) = 6333186975989760"
    using small by (intro round_half_even_up) simp_all
  then have "round_to_double v = q * 6333186975989760"
    using round_to_double_binade [OF vpos lo hi q] by (simp only: scaled)
  then show ?thesis by (simp add: v_def q_def)
qed

text \<open>
  C7. The claim asks for a heading in \<open>[0, 360)\<close>. In double precision the code
  returns exactly 360 for the target \<^verbatim>\<open>(-2**-70, 1)\<close> seen from the origin: the angle is
  negative and so small that adding 360 rounds to 360.
\<close>

theorem calculate_heading_float_reaches_360:
  "calculate_heading_float 0 0 (- (1 / 2 ^ 70)) 1 = 360"
proof -
  define dx where "dx = round_to_double (- (1 / 2 ^ 70) - 0)"
  define dy where "dy = round_to_double (1 - 0)"
  define a where "a = float_atan2 dx dy"
  define c where "c = round_to_double (180 / round_to_double pi)"
  define angle where "angle = float_degrees a"
  have dx: "- (1 / 2 ^ 69) \<le> dx" "dx < 0"
    using round_to_double_neg [of "- (1 / 2 ^ 70)"] by (simp_all add: dx_def)
  have dy: "1 / 2 \<le> dy" "dy \<le> 2"
    using round_to_double_pos [of 1] by (simp_all add: dy_def)
  have t: "- (1 / 2 ^ 68) \<le> dx / dy" "dx / dy < 0"
  proof -
    have "dx / dy \<ge> dx / (1 / 2)"
      using dx dy by (intro divide_left_mono_neg) simp_all
    then show "- (1 / 2 ^ 68) \<le> dx / dy" using dx by simp
    show "dx / dy < 0" using dx dy by (simp add: divide_neg_pos)
  qed
  have at: "atan2 dx dy = arctan (dx / dy)" using dy by (simp add: atan2_def)
  have ex: "- (1 / 2 ^ 68) \<le> atan2 dx dy" "atan2 dx dy < 0"
    using t arctan_ge_self_neg [of "dx / dy"] by (simp_all add: at)
  have a: "- (1 / 2 ^ 67) \<le> a" "a < 0"
    using ex round_to_double_neg [of "atan2 dx dy"] by (simp_all add: a_def float_atan2_def)
  have p: "1 \<le> round_to_double pi" "round_to_double pi \<le> 8"
    using round_to_double_pos [of pi] pi_ge_two pi_less_4 pi_gt_zero by linarith+
  have ratio: "0 < 180 / round_to_double pi" "180 / round_to_double pi \<le> 180"
    using p by (simp_all add: field_simps)
  define r where "r = 180 / round_to_double pi"
  have r: "0 < r" "r \<le> 180" using ratio by (simp_all add: r_def)
  have c: "0 < c" "c \<le> 360"
    using r round_to_double_pos [of r] unfolding c_def r_def [symmetric] by linarith+
  have prod: "- (360 / 2 ^ 67) \<le> a * c" "a * c < 0"
  proof -
    have "a * 360 \<le> a * c" using mult_left_mono_neg [of c 360 a] a c by simp
    moreover have "- (1 / 2 ^ 67) * 360 \<le> a * 360" using a by simp
    ultimately show "- (360 / 2 ^ 67) \<le> a * c" by simp
    show "a * c < 0" using a c by (simp add: mult_neg_pos)
  qed
  have angle: "- (1 / 2 ^ 57) < angle" "angle < 0"
    using prod round_to_double_neg [of "a * c"]
    by (simp_all add: angle_def float_degrees_def c_def [symmetric])
  have "calculate_heading_float 0 0 (- (1 / 2 ^ 70)) 1 = round_to_double (angle + 360)"
    using angle
    by (simp add: calculate_heading_float_def Let_def angle_def a_def dx_def dy_def)
  then show ?thesis using round_to_double_just_below_360 [OF angle] by simp
qed


section \<open>Binary64 rounding\<close>

lemma to_float64_safe:
  assumes "\<bar>v\<bar> \<le> 3 * 2 ^ 1022"
  shows "\<exists>r. to_float64 v = Fin r \<and> \<bar>r - v\<bar> \<le> \<bar>v\<bar> / 2 ^ 53 + 1 / 2 ^ 1075"
proof (cases "v = 0")
  case True
  then show ?thesis by (simp add: to_float64_def round_binary64_def)
next
  case False
  define e0 where "e0 = \<lfloor>log 2 \<bar>v\<bar>\<rfloor>"
  define e where "e = max e0 (- 1022)"
  define q :: real where "q = 2 powr (of_int e - 52)"
  define r where "r = q * of_int (round_half_even (v / q))"
  have qpos: "0 < q" by (simp add: q_def)
  have r: "round_binary64 v = r"
    using False by (simp add: round_binary64_def Let_def r_def q_def e_def e0_def)
  have "r - v = q * (of_int (round_half_even (v / q)) - v / q)"
    using qpos by (simp add: r_def algebra_simps)
  then have "\<bar>r - v\<bar> = q * \<bar>of_int (round_half_even (v / q)) - v / q\<bar>"
    using qpos by (simp add: abs_mult)
  also have "\<dots> \<le> q * (1 / 2)"
    using qpos round_half_even_error [of "v / q"] by (intro mult_left_mono) simp_all
  finally have err: "\<bar>r - v\<bar> \<le> q / 2" by simp
  have qle: "q / 2 \<le> \<bar>v\<bar> / 2 ^ 53 + 1 / 2 ^ 1075"
  proof (cases "- 1022 \<le> e0")
    case True
    then have "e = e0" by (simp add: e_def)
    moreover have "2 powr (of_int e0) \<le> \<bar>v\<bar>"
      using False floor_log_eq_powr_iff [of "\<bar>v\<bar>" 2 e0] by (simp add: e0_def)
    moreover have "q = 2 powr (of_int e) / 2 ^ 52"
      by (simp add: q_def powr_diff)
    ultimately have "q \<le> \<bar>v\<bar> / 2 ^ 52" by (simp add: divide_right_mono)
    then have "q / 2 \<le> \<bar>v\<bar> / 2 ^ 53" by simp
    then show ?thesis by (smt (verit) zero_le_divide_1_iff zero_le_numeral zero_le_power)
  next
    case False
    then have "e = - 1022" by (simp add: e_def)
    then have "q = 1 / 2 ^ 1074" by (simp add: q_def powr_minus_divide)
    then have "q / 2 = 1 / 2 ^ 1075" by simp
    then show ?thesis by simp
  qed
  have "\<bar>v\<bar> / 2 ^ 53 \<le> \<bar>v\<bar> / 4" by (simp add: field_simps)
  moreover have "(1::real) / 2 ^ 1075 \<le> 1" by simp
  ultimately have "\<bar>r\<bar> \<le> \<bar>v\<bar> + \<bar>v\<bar> / 4 + 1" using err qle by linarith
  then have "\<bar>r\<bar> < 2 ^ 1024" using assms by simp
  then have "to_float64 v = Fin r" by (simp add: to_float64_def r Let_def)
  then show ?thesis using err qle by auto
qed



lemma round_half_even_of_int: "round_half_even (of_int k) = k"
  by (simp add: round_half_even_def)

text \<open>In the normal range the rounding is that of \<open>round_to_double\<close>.\<close>

lemma round_binary64_normal:
  assumes "2 powr (- 1022) \<le> \<bar>v\<bar>"
  shows "round_binary64 v = round_to_double v"
proof -
  have pos: "0 < \<bar>v\<bar>" using assms by (smt (verit) powr_gt_zero)
  have "of_int (- 1022) \<le> log 2 \<bar>v\<bar>"
    using assms pos le_log_iff [of 2 "\<bar>v\<bar>" "- 1022"] by simp
  then have "- 1022 \<le> \<lfloor>log 2 \<bar>v\<bar>\<rfloor>" by (simp only: le_floor_iff)
  then have "max \<lfloor>log 2 \<bar>v\<bar>\<rfloor> (- 1022) = \<lfloor>log 2 \<bar>v\<bar>\<rfloor>" by simp
  then show ?thesis by (simp add: round_binary64_def round_to_double_def)
qed

section \<open>Coordinate transform\<close>

lemma scale_value:
  assumes "cs \<noteq> 0" and "\<bar>cs\<bar> \<le> 2 ^ 1023"
  shows "\<exists>s. CoordinateSystem_init cs = Inr \<lparr>canvas_size = cs, scale = Fin s\<rparr> \<and>
           1 / 200 \<le> \<bar>s\<bar> \<and> 146 * \<bar>s\<bar> \<le> 3 * 2 ^ 1022"
proof -
  define n :: real where "n = of_int cs"
  have n1: "1 \<le> \<bar>n\<bar>" using assms(1) by (simp add: n_def)
  have n2: "\<bar>n\<bar> \<le> 2 ^ 1023"
  proof -
    have "\<bar>n\<bar> = of_int \<bar>cs\<bar>" by (simp add: n_def)
    also have "\<dots> \<le> of_int (2 ^ 1023)" using assms(2) by (intro of_int_le_iff [THEN iffD2])
    finally show ?thesis by simp
  qed
  obtain c0 where c0: "to_float64 n = Fin c0" "\<bar>c0 - n\<bar> \<le> \<bar>n\<bar> / 2 ^ 53 + 1 / 2 ^ 1075"
    using to_float64_safe [of n] n2 by auto
  have e1: "\<bar>n\<bar> / 2 ^ 53 \<le> \<bar>n\<bar> / 1000" by (simp add: field_simps)
  have e2: "(1::real) / 2 ^ 1075 \<le> \<bar>n\<bar> / 1000" using n1 by simp
  have c0lo: "\<bar>n\<bar> * (998 / 1000) \<le> \<bar>c0\<bar>" and c0hi: "\<bar>c0\<bar> \<le> \<bar>n\<bar> * (1002 / 1000)"
    using c0(2) e1 e2 by linarith+
  define v where "v = c0 / 144"
  have v: "\<bar>v\<bar> = \<bar>c0\<bar> / 144" by (simp add: v_def)
  have vhi: "\<bar>v\<bar> \<le> 3 * 2 ^ 1022" using c0hi n2 by (simp add: v)
  obtain s where s: "to_float64 v = Fin s" "\<bar>s - v\<bar> \<le> \<bar>v\<bar> / 2 ^ 53 + 1 / 2 ^ 1075"
    using to_float64_safe [OF vhi] by auto
  have f1: "\<bar>v\<bar> / 2 ^ 53 \<le> \<bar>v\<bar> / 1000" by (simp add: field_simps)
  have vlo: "998 / 144000 \<le> \<bar>v\<bar>" using c0lo n1 by (simp add: v)
  have f2: "(1::real) / 2 ^ 1075 \<le> 1 / 1000000" by simp
  have slo: "1 / 200 \<le> \<bar>s\<bar>" using s(2) f1 f2 vlo by linarith
  have "\<bar>s\<bar> \<le> \<bar>v\<bar> * (1001 / 1000) + 1 / 1000000" using s(2) f1 f2 by linarith
  moreover have "\<bar>v\<bar> \<le> 2 ^ 1023 * (1002 / 144000)" using c0hi n2 by (simp add: v)
  ultimately have shi: "146 * \<bar>s\<bar> \<le> 3 * 2 ^ 1022" by simp
  have "CoordinateSystem_init cs = Inr \<lparr>canvas_size = cs, scale = Fin s\<rparr>"
    using c0(1) s(1)
    by (simp add: CoordinateSystem_init_def int_to_float_def bind_err_def
        FIELD_SIZE_INCHES_def n_def v_def)
  then show ?thesis using slo shi by blast
qed

lemma mul_div_round_trip:
  assumes "\<bar>a\<bar> \<le> 145" and "1 / 200 \<le> \<bar>s\<bar>" and "146 * \<bar>s\<bar> \<le> 3 * 2 ^ 1022"
  shows "\<exists>c d. float_mul (Fin a) (Fin s) = Fin c \<and> float_div (Fin c) (Fin s) = Inr (Fin d) \<and>
           \<bar>d - a\<bar> \<le> 300 / 2 ^ 53"
proof -
  have s0: "s \<noteq> 0" and spos: "0 < \<bar>s\<bar>" using assms(2) by auto
  have "\<bar>a * s\<bar> \<le> 145 * \<bar>s\<bar>"
    using assms(1) by (simp add: abs_mult mult_right_mono)
  then have as: "\<bar>a * s\<bar> \<le> 3 * 2 ^ 1022" using assms(3) by linarith
  obtain c where c: "to_float64 (a * s) = Fin c"
      "\<bar>c - a * s\<bar> \<le> \<bar>a * s\<bar> / 2 ^ 53 + 1 / 2 ^ 1075"
    using to_float64_safe [OF as] by auto
  have "c / s - a = (c - a * s) / s" using s0 by (simp add: field_simps)
  then have "\<bar>c / s - a\<bar> = \<bar>c - a * s\<bar> / \<bar>s\<bar>" by (simp add: abs_divide)
  also have "\<dots> \<le> (\<bar>a * s\<bar> / 2 ^ 53 + 1 / 2 ^ 1075) / \<bar>s\<bar>"
    using c(2) spos by (intro divide_right_mono) simp_all
  also have "\<dots> = \<bar>a\<bar> / 2 ^ 53 + (1 / 2 ^ 1075) / \<bar>s\<bar>"
    using s0 by (simp add: abs_mult add_divide_distrib)
  also have "\<dots> \<le> \<bar>a\<bar> / 2 ^ 53 + (1 / 2 ^ 1075) / (1 / 200)"
    using assms(2) by (intro add_left_mono divide_left_mono) simp_all
  finally have q1: "\<bar>c / s - a\<bar> \<le> \<bar>a\<bar> / 2 ^ 53 + 200 / 2 ^ 1075" by simp
  have t1: "\<bar>a\<bar> / 2 ^ 53 \<le> 145 / 2 ^ 53" using assms(1) by (simp add: divide_right_mono)
  have t2: "(200::real) / 2 ^ 1075 \<le> 1 / 2 ^ 53" by simp
  have q2: "\<bar>c / s - a\<bar> \<le> 146 / 2 ^ 53" using q1 t1 t2 by linarith
  have "(146::real) / 2 ^ 53 \<le> 1" by simp
  then have cs: "\<bar>c / s\<bar> \<le> 146" using q2 assms(1) by linarith
  then have "\<bar>c / s\<bar> \<le> 3 * 2 ^ 1022" by simp
  then obtain d where d: "to_float64 (c / s) = Fin d"
      "\<bar>d - c / s\<bar> \<le> \<bar>c / s\<bar> / 2 ^ 53 + 1 / 2 ^ 1075"
    using to_float64_safe [of "c / s"] by auto
  have t3: "\<bar>c / s\<bar> / 2 ^ 53 \<le> 146 / 2 ^ 53" using cs by (simp add: divide_right_mono)
  have t4: "(1::real) / 2 ^ 1075 \<le> 1 / 2 ^ 53" by simp
  have "\<bar>d - a\<bar> \<le> 300 / 2 ^ 53" using d(2) q2 t3 t4 by linarith
  moreover have "float_mul (Fin a) (Fin s) = Fin c" using c(1) by simp
  moreover have "float_div (Fin c) (Fin s) = Inr (Fin d)" using d(1) s0 by simp
  ultimately show ?thesis by blast
qed


lemma offset_round_trip:
  assumes "\<bar>a0\<bar> \<le> 144" and "1 / 200 \<le> \<bar>s\<bar>" and "146 * \<bar>s\<bar> \<le> 3 * 2 ^ 1022"
  shows "\<exists>d. float_div (float_mul (to_float64 a0) (Fin s)) (Fin s) = Inr (Fin d) \<and>
           \<bar>d - a0\<bar> \<le> 446 / 2 ^ 53"
proof -
  have "\<bar>a0\<bar> \<le> 3 * 2 ^ 1022" using assms(1) by simp
  then obtain a where a: "to_float64 a0 = Fin a" "\<bar>a - a0\<bar> \<le> \<bar>a0\<bar> / 2 ^ 53 + 1 / 2 ^ 1075"
    using to_float64_safe [of a0] by auto
  have t1: "\<bar>a0\<bar> / 2 ^ 53 \<le> 144 / 2 ^ 53" using assms(1) by (simp add: divide_right_mono)
  have t2: "(1::real) / 2 ^ 1075 \<le> 1 / 2 ^ 53" by simp
  have a1: "\<bar>a - a0\<bar> \<le> 145 / 2 ^ 53" using a(2) t1 t2 by linarith
  have "(145::real) / 2 ^ 53 \<le> 1" by simp
  then have "\<bar>a\<bar> \<le> 145" using a1 assms(1) by linarith
  from mul_div_round_trip [OF this assms(2,3)] obtain c d where
    cd: "float_mul (Fin a) (Fin s) = Fin c" "float_div (Fin c) (Fin s) = Inr (Fin d)"
      "\<bar>d - a\<bar> \<le> 300 / 2 ^ 53"
    by blast
  have "\<bar>d - a0\<bar> \<le> 446 / 2 ^ 53" using cd(3) a1 by linarith
  then show ?thesis using a(1) cd(1,2) by auto
qed

lemma final_offset:
  assumes "\<bar>d - a0\<bar> \<le> 446 / 2 ^ 53" and "\<bar>a0\<bar> \<le> 144" and "\<bar>b\<bar> \<le> 72"
  shows "\<exists>f. to_float64 (d + b) = Fin f \<and> \<bar>f - (a0 + b)\<bar> \<le> 700 / 2 ^ 53"
proof -
  have "(446::real) / 2 ^ 53 \<le> 1" by simp
  then have db: "\<bar>d + b\<bar> \<le> 217" using assms by linarith
  then have "\<bar>d + b\<bar> \<le> 3 * 2 ^ 1022" by simp
  then obtain f where f: "to_float64 (d + b) = Fin f"
      "\<bar>f - (d + b)\<bar> \<le> \<bar>d + b\<bar> / 2 ^ 53 + 1 / 2 ^ 1075"
    using to_float64_safe [of "d + b"] by auto
  have t1: "\<bar>d + b\<bar> / 2 ^ 53 \<le> 217 / 2 ^ 53" using db by (simp add: divide_right_mono)
  have t2: "(1::real) / 2 ^ 1075 \<le> 1 / 2 ^ 53" by simp
  have "\<bar>f - (a0 + b)\<bar> \<le> 700 / 2 ^ 53" using f(2) t1 t2 assms(1) by linarith
  then show ?thesis using f(1) by blast
qed

theorem transform_inverse_counterexample:
  "field_round_trip 0 (Fin 10) (Fin (- 24)) = Inl ZeroDivisionError \<and>
   field_round_trip (2 ^ 1024) (Fin 10) (Fin (- 24)) = Inl OverflowError"
proof -
  have zero: "to_float64 0 = Fin 0"
    by (simp add: to_float64_def round_binary64_def)
  have "CoordinateSystem_init 0 = Inr \<lparr>canvas_size = 0, scale = Fin 0\<rparr>"
    by (simp add: CoordinateSystem_init_def int_to_float_def bind_err_def
        FIELD_SIZE_INCHES_def zero)
  then have first: "field_round_trip 0 (Fin 10) (Fin (- 24)) = Inl ZeroDivisionError"
    by (simp add: field_round_trip_def canvas_to_field_def bind_err_def)
  have "\<lfloor>log 2 \<bar>2 ^ 1024 :: real\<bar>\<rfloor> = 1024"
    using floor_log_eq_powr_iff [of "2 ^ 1024 :: real" 2 1024] by simp
  moreover have "(2::real) powr (of_int 1024 - 52) = 2 ^ 972"
    using powr_realpow [of "2::real" 972] by simp
  moreover have "round_half_even ((2 ^ 1024 :: real) / 2 ^ 972) = 2 ^ 52"
  proof -
    have "(2 ^ 1024 :: real) / 2 ^ 972 = of_int (2 ^ 52)" by simp
    then show ?thesis by (simp only: round_half_even_of_int)
  qed
  ultimately have "round_binary64 (2 ^ 1024) = 2 ^ 1024"
    by (simp add: round_binary64_def Let_def)
  then have "to_float64 (2 ^ 1024) = PInf" by (simp add: to_float64_def)
  then have "CoordinateSystem_init (2 ^ 1024) = Inl OverflowError"
    by (simp add: CoordinateSystem_init_def int_to_float_def bind_err_def)
  then have "field_round_trip (2 ^ 1024) (Fin 10) (Fin (- 24)) = Inl OverflowError"
    by (simp add: field_round_trip_def bind_err_def)
  then show ?thesis using first by simp
qed

text \<open>
  C5 (amended). For every canvas size other than zero, of magnitude at most
  \<^verbatim>\<open>2**1023\<close>, and every field point in \<open>[-72, 72] \<times> [-72, 72]\<close>, \<^verbatim>\<open>canvas_to_field\<close>
  applied to the result of \<^verbatim>\<open>field_to_canvas\<close> returns a finite point within \<open>10\<^sup>-\<^sup>6\<close>
  of the field point in each coordinate, every operation being rounded to binary64.
\<close>

theorem transform_inverse:
  assumes "cs \<noteq> 0" and "\<bar>cs\<bar> \<le> 2 ^ 1023" and "\<bar>x\<bar> \<le> 72" and "\<bar>y\<bar> \<le> 72"
  shows "\<exists>x' y'. field_round_trip cs (Fin x) (Fin y) = Inr (Fin x', Fin y') \<and>
           \<bar>x' - x\<bar> \<le> 1 / 10 ^ 6 \<and> \<bar>y' - y\<bar> \<le> 1 / 10 ^ 6"
proof -
  from scale_value [OF assms(1,2)] obtain s where
    init: "CoordinateSystem_init cs = Inr \<lparr>canvas_size = cs, scale = Fin s\<rparr>"
    and s: "1 / 200 \<le> \<bar>s\<bar>" "146 * \<bar>s\<bar> \<le> 3 * 2 ^ 1022"
    by blast
  have ax: "\<bar>x + 72\<bar> \<le> 144" and ay: "\<bar>72 - y\<bar> \<le> 144" and ay': "\<bar>y - 72\<bar> \<le> 144"
    using assms(3,4) by linarith+
  from offset_round_trip [OF ax s] obtain dx where
    dx: "float_div (float_mul (to_float64 (x + 72)) (Fin s)) (Fin s) = Inr (Fin dx)"
      "\<bar>dx - (x + 72)\<bar> \<le> 446 / 2 ^ 53"
    by blast
  from offset_round_trip [OF ay s] obtain dy where
    dy: "float_div (float_mul (to_float64 (72 - y)) (Fin s)) (Fin s) = Inr (Fin dy)"
      "\<bar>dy - (72 - y)\<bar> \<le> 446 / 2 ^ 53"
    by blast
  have b72: "\<bar>- 72 :: real\<bar> \<le> 72" "\<bar>72 :: real\<bar> \<le> 72" by simp_all
  from final_offset [OF dx(2) ax b72(1)] obtain fx where
    fx: "to_float64 (dx - 72) = Fin fx" "\<bar>fx - x\<bar> \<le> 700 / 2 ^ 53"
    by auto
  have "\<bar>- dy - (y - 72)\<bar> \<le> 446 / 2 ^ 53" using dy(2) by linarith
  from final_offset [OF this ay' b72(2)] obtain fy where
    fy: "to_float64 (72 - dy) = Fin fy" "\<bar>fy - y\<bar> \<le> 700 / 2 ^ 53"
    by auto
  have bound: "(700::real) / 2 ^ 53 \<le> 1 / 10 ^ 6" by simp
  have ex: "\<bar>fx - x\<bar> \<le> 1 / 10 ^ 6" using fx(2) bound by linarith
  have ey: "\<bar>fy - y\<bar> \<le> 1 / 10 ^ 6" using fy(2) bound by linarith
  have "field_round_trip cs (Fin x) (Fin y) = Inr (Fin fx, Fin fy)"
    using init dx(1) dy(1) fx(1) fy(1)
    by (simp add: field_round_trip_def canvas_to_field_def field_to_canvas_def bind_err_def
        FIELD_HALF_SIZE_def float_sub_def Let_def)
  then show ?thesis using ex ey by blast
qed

theorem transform_inverse_witness:
  "(600::int) \<noteq> 0 \<and> \<bar>600::int\<bar> \<le> 2 ^ 1023 \<and> \<bar>21 / 2 :: real\<bar> \<le> 72 \<and>
   \<bar>- (97 / 4) :: real\<bar> \<le> 72 \<and>
   (\<exists>x' y'. field_round_trip 600 (Fin (21 / 2)) (Fin (- (97 / 4))) = Inr (Fin x', Fin y') \<and>
      \<bar>x' - 21 / 2\<bar> \<le> 1 / 10 ^ 6 \<and> \<bar>y' - - (97 / 4)\<bar> \<le> 1 / 10 ^ 6)"
proof -
  have h: "(600::int) \<noteq> 0" "\<bar>600::int\<bar> \<le> 2 ^ 1023" "\<bar>21 / 2 :: real\<bar> \<le> 72"
    "\<bar>- (97 / 4) :: real\<bar> \<le> 72"
    by simp_all
  show ?thesis using h transform_inverse [OF h] by blast
qed

section \<open>Adaptive decomposition\<close>

lemma to_float64_Fin: "to_float64 v = Fin r \<Longrightarrow> r = round_binary64 v"
  by (simp add: to_float64_def Let_def split: if_splits)

lemma to_float64_in_range:
  assumes "\<bar>v\<bar> \<le> 3 * 2 ^ 1022"
  shows "to_float64 v = Fin (round_binary64 v)"
  using to_float64_safe [OF assms] to_float64_Fin by blast

lemma round_binary64_exact:
  assumes "2 powr (of_int e) \<le> \<bar>v\<bar>" and "\<bar>v\<bar> < 2 powr (of_int e + 1)" and "- 1022 \<le> e"
    and "v * 2 powr (52 - of_int e) = of_int k"
  shows "round_binary64 v = v"
proof -
  have v0: "v \<noteq> 0" using assms(1) by (smt (verit) powr_gt_zero)
  have "\<lfloor>log 2 \<bar>v\<bar>\<rfloor> = e"
    using v0 assms(1,2) floor_log_eq_powr_iff [of "\<bar>v\<bar>" 2 e] by simp
  then have e: "max \<lfloor>log 2 \<bar>v\<bar>\<rfloor> (- 1022) = e" using assms(3) by simp
  define q :: real where "q = 2 powr (of_int e - 52)"
  have qpos: "0 < q" by (simp add: q_def)
  have "1 / q = 2 powr (52 - of_int e)"
    by (simp add: q_def powr_minus_divide [symmetric])
  moreover have "v / q = v * (1 / q)" by simp
  ultimately have "v / q = of_int k" using assms(4) by (simp only:)
  then have "q * of_int (round_half_even (v / q)) = q * (v / q)"
    by (simp only: round_half_even_of_int)
  also have "\<dots> = v" using qpos by simp
  finally show ?thesis using v0 e by (simp add: round_binary64_def Let_def q_def)
qed

lemma is_double_small:
  "is_double 0" "is_double 1" "is_double 2" "is_double 28" "is_double (- 28)" "is_double 784"
proof -
  show "is_double 0" by (simp add: is_double_def to_float64_def round_binary64_def)
  have "round_binary64 1 = 1"
    by (rule round_binary64_exact [where e = 0 and k = "2 ^ 52"]) simp_all
  then show "is_double 1" by (simp add: is_double_def to_float64_def)
  have "round_binary64 2 = 2"
    by (rule round_binary64_exact [where e = 1 and k = "2 ^ 52"]) simp_all
  then show "is_double 2" by (simp add: is_double_def to_float64_def)
  have "round_binary64 28 = 28"
    by (rule round_binary64_exact [where e = 4 and k = "28 * 2 ^ 48"]) simp_all
  then show "is_double 28" by (simp add: is_double_def to_float64_def)
  have "round_binary64 (- 28) = - 28"
    by (rule round_binary64_exact [where e = 4 and k = "- 28 * 2 ^ 48"]) simp_all
  then show "is_double (- 28)" by (simp add: is_double_def to_float64_def)
  have "round_binary64 784 = 784"
    by (rule round_binary64_exact [where e = 9 and k = "784 * 2 ^ 43"]) simp_all
  then show "is_double 784" by (simp add: is_double_def to_float64_def)
qed

lemmas to_float64_small = is_double_small [unfolded is_double_def]

lemma quadratic_bezier_start:
  assumes "finite_point p0" and "finite_point p1" and "finite_point p2"
  shows "quadratic_bezier p0 p1 p2 (Fin 0) = p0"
proof -
  obtain a0 b0 where p0: "p0 = \<lparr>pt_x = Fin a0, pt_y = Fin b0\<rparr>"
    and d0: "to_float64 a0 = Fin a0" "to_float64 b0 = Fin b0"
    using assms(1) by (auto simp: finite_point_def is_double_def)
  obtain a1 b1 where p1: "p1 = \<lparr>pt_x = Fin a1, pt_y = Fin b1\<rparr>"
    using assms(2) by (auto simp: finite_point_def)
  obtain a2 b2 where p2: "p2 = \<lparr>pt_x = Fin a2, pt_y = Fin b2\<rparr>"
    using assms(3) by (auto simp: finite_point_def)
  show ?thesis
    by (simp add: quadratic_bezier_def Point_add_def Point_rmul_def Point_mul_def float_sub_def
        p0 p1 p2 d0 to_float64_small Let_def)
qed

lemma quadratic_bezier_end:
  assumes "finite_point p0" and "finite_point p1" and "finite_point p2"
  shows "quadratic_bezier p0 p1 p2 (Fin 1) = p2"
proof -
  obtain a0 b0 where p0: "p0 = \<lparr>pt_x = Fin a0, pt_y = Fin b0\<rparr>"
    using assms(1) by (auto simp: finite_point_def)
  obtain a1 b1 where p1: "p1 = \<lparr>pt_x = Fin a1, pt_y = Fin b1\<rparr>"
    using assms(2) by (auto simp: finite_point_def)
  obtain a2 b2 where p2: "p2 = \<lparr>pt_x = Fin a2, pt_y = Fin b2\<rparr>"
    and d2: "to_float64 a2 = Fin a2" "to_float64 b2 = Fin b2"
    using assms(3) by (auto simp: finite_point_def is_double_def)
  show ?thesis
    by (simp add: quadratic_bezier_def Point_add_def Point_rmul_def Point_mul_def float_sub_def
        p0 p1 p2 d2 to_float64_small Let_def)
qed

lemma int_truediv_unit:
  assumes "1 \<le> n" and "0 \<le> i" and "i \<le> n"
  shows "int_truediv i n = Inr (Fin (round_binary64 (of_int i / of_int n)))"
proof -
  have "\<bar>real_of_int i / real_of_int n\<bar> \<le> 1" using assms by simp
  then have "\<bar>real_of_int i / real_of_int n\<bar> \<le> 3 * 2 ^ 1022" by simp
  from to_float64_in_range [OF this] show ?thesis
    using assms(1) by (simp add: int_truediv_def)
qed

lemma decompose_loop_map:
  assumes "1 \<le> n" and "\<forall>i \<in> set is. 0 \<le> i \<and> i \<le> n"
  shows "decompose_loop p0 p1 p2 n is =
     Inr (map (\<lambda>i. quadratic_bezier p0 p1 p2
                      (Fin (round_binary64 (of_int i / of_int n)))) is)"
  using assms(2)
proof (induction "is")
  case Nil
  then show ?case by simp
next
  case (Cons i rest)
  then show ?case using int_truediv_unit [OF assms(1), of i] by (simp add: bind_err_def)
qed

lemma decompose_quadratic_bezier_points:
  assumes "1 \<le> n"
  shows "\<exists>points. decompose_quadratic_bezier p0 p1 p2 n = Inr points \<and>
           length points = nat n + 1 \<and>
           (finite_point p0 \<and> finite_point p1 \<and> finite_point p2 \<longrightarrow>
              hd points = p0 \<and> last points = p2)"
proof -
  let ?f = "\<lambda>i. quadratic_bezier p0 p1 p2 (Fin (round_binary64 (of_int i / of_int n)))"
  have res: "decompose_quadratic_bezier p0 p1 p2 n = Inr (map ?f [0..n])"
    unfolding decompose_quadratic_bezier_def
    by (rule decompose_loop_map [OF assms]) simp
  have len: "length (map ?f [0..n]) = nat n + 1"
    using assms by simp
  have first: "[0..n] = 0 # [1..n]" using assms by (simp add: upto_rec1)
  have final: "[0..n] = [0..n - 1] @ [n]" using assms by (simp add: upto_rec2)
  have r0: "round_binary64 0 = 0" by (simp add: round_binary64_def)
  have r1: "round_binary64 1 = 1" using to_float64_small(2) to_float64_Fin by fastforce
  have h: "hd (map ?f [0..n]) = quadratic_bezier p0 p1 p2 (Fin 0)"
    by (simp add: first r0)
  have l: "last (map ?f [0..n]) = quadratic_bezier p0 p1 p2 (Fin 1)"
    using assms by (simp add: final r1)
  show ?thesis
    using res len h l quadratic_bezier_start quadratic_bezier_end by auto
qed

lemma round_half_even_nonneg: "0 \<le> r \<Longrightarrow> 0 \<le> round_half_even r"
  by (auto simp: round_half_even_def Let_def)

lemma round_binary64_nonneg: "0 \<le> v \<Longrightarrow> 0 \<le> round_binary64 v"
  by (simp add: round_binary64_def Let_def round_half_even_nonneg)

lemma to_float64_crude:
  assumes "\<bar>v\<bar> \<le> 2 ^ 1020"
  shows "\<exists>r. to_float64 v = Fin r \<and> \<bar>r\<bar> \<le> 2 * \<bar>v\<bar> + 1 \<and> (0 \<le> v \<longrightarrow> 0 \<le> r)"
proof -
  have "\<bar>v\<bar> \<le> 3 * 2 ^ 1022" using assms by simp
  from to_float64_safe [OF this] obtain r where
    r: "to_float64 v = Fin r" "\<bar>r - v\<bar> \<le> \<bar>v\<bar> / 2 ^ 53 + 1 / 2 ^ 1075"
    by blast
  have "\<bar>v\<bar> / 2 ^ 53 \<le> \<bar>v\<bar>" by (simp add: field_simps)
  moreover have "(1::real) / 2 ^ 1075 \<le> 1" by simp
  ultimately have "\<bar>r\<bar> \<le> 2 * \<bar>v\<bar> + 1" using r(2) by linarith
  moreover have "0 \<le> v \<longrightarrow> 0 \<le> r"
    using to_float64_Fin [OF r(1)] round_binary64_nonneg by simp
  ultimately show ?thesis using r(1) by blast
qed

lemma distance_to_finite:
  assumes "accurate_square pw" and "bounded_point p" and "bounded_point p'"
  shows "\<exists>r. distance_to pw p p' = Inr (Fin r) \<and> \<bar>r\<bar> \<le> 2 ^ 510"
proof -
  obtain a b where p: "p = \<lparr>pt_x = Fin a, pt_y = Fin b\<rparr>" and ab: "\<bar>a\<bar> \<le> 2 ^ 500" "\<bar>b\<bar> \<le> 2 ^ 500"
    using assms(2) by (auto simp: bounded_point_def)
  obtain c d where p': "p' = \<lparr>pt_x = Fin c, pt_y = Fin d\<rparr>" and cd: "\<bar>c\<bar> \<le> 2 ^ 500" "\<bar>d\<bar> \<le> 2 ^ 500"
    using assms(3) by (auto simp: bounded_point_def)
  have square: "\<exists>w. float_square pw (float_sub (Fin u) (Fin u')) = Inr (Fin w) \<and> 0 \<le> w \<and>
      w \<le> 2 ^ 1009" if u: "\<bar>u\<bar> \<le> 2 ^ 500" "\<bar>u'\<bar> \<le> 2 ^ 500" for u u'
  proof -
    have "\<bar>u - u'\<bar> \<le> 2 ^ 501" using u by simp
    then have "\<bar>u - u'\<bar> \<le> 2 ^ 1020" by simp
    from to_float64_crude [OF this] obtain t where
      t: "to_float64 (u - u') = Fin t" "\<bar>t\<bar> \<le> 2 * \<bar>u - u'\<bar> + 1"
      by blast
    have tb: "\<bar>t\<bar> \<le> 2 ^ 503" using t(2) \<open>\<bar>u - u'\<bar> \<le> 2 ^ 501\<close> by simp
    have "\<bar>t\<bar> * \<bar>t\<bar> \<le> 2 ^ 503 * 2 ^ 503"
      using tb by (intro mult_mono) simp_all
    then have tt: "t * t \<le> 2 ^ 1006" by (simp add: abs_mult [symmetric])
    have acc: "0 \<le> pw t" "\<bar>pw t - t * t\<bar> \<le> t * t / 2 ^ 52 + 1 / 2 ^ 1074"
      using assms(1) by (simp_all add: accurate_square_def)
    have "t * t / 2 ^ 52 \<le> t * t" by (simp add: field_simps)
    moreover have "(1::real) / 2 ^ 1074 \<le> 1" by simp
    ultimately have pwb: "0 \<le> pw t" "pw t \<le> 2 * (t * t) + 1" using acc by linarith+
    then have "\<bar>pw t\<bar> \<le> 2 ^ 1020" using tt by simp
    from to_float64_crude [OF this] obtain w where
      w: "to_float64 (pw t) = Fin w" "\<bar>w\<bar> \<le> 2 * \<bar>pw t\<bar> + 1" "0 \<le> w"
      using pwb(1) by auto
    have "w \<le> 2 ^ 1009" using w(2) pwb tt by simp
    then show ?thesis using t(1) w(1,3) by (simp add: float_sub_def)
  qed
  from square [OF ab(1) cd(1)] obtain wx where
    wx: "float_square pw (float_sub (Fin a) (Fin c)) = Inr (Fin wx)" "0 \<le> wx" "wx \<le> 2 ^ 1009"
    by blast
  from square [OF ab(2) cd(2)] obtain wy where
    wy: "float_square pw (float_sub (Fin b) (Fin d)) = Inr (Fin wy)" "0 \<le> wy" "wy \<le> 2 ^ 1009"
    by blast
  have "\<bar>wx + wy\<bar> \<le> 2 ^ 1020" using wx(2,3) wy(2,3) by simp
  from to_float64_crude [OF this] obtain s where
    s: "to_float64 (wx + wy) = Fin s" "\<bar>s\<bar> \<le> 2 * \<bar>wx + wy\<bar> + 1" "0 \<le> s"
    using wx(2) wy(2) by auto
  have sb: "s \<le> (2 ^ 506)\<^sup>2" using s(2,3) wx(2,3) wy(2,3) by simp
  have "sqrt s \<le> sqrt ((2 ^ 506)\<^sup>2)" using sb by (rule real_sqrt_le_mono)
  then have rs: "sqrt s \<le> 2 ^ 506" by simp
  have "0 \<le> sqrt s" using s(3) by simp
  then have "\<bar>sqrt s\<bar> \<le> 2 ^ 1020" using rs by simp
  from to_float64_crude [OF this] obtain r where
    r: "to_float64 (sqrt s) = Fin r" "\<bar>r\<bar> \<le> 2 * \<bar>sqrt s\<bar> + 1"
    by blast
  have "\<bar>r\<bar> \<le> 2 ^ 510" using r(2) rs \<open>0 \<le> sqrt s\<close> by simp
  moreover have "distance_to pw p p' = Inr (Fin r)"
    using wx(1) wy(1) s(1,3) r(1) by (simp add: distance_to_def p p' bind_err_def)
  ultimately show ?thesis by blast
qed

lemma segment_quotient_finite:
  assumes "accurate_square pw" and "bounded_point p0" and "bounded_point p1"
    and "bounded_point p2" and "1 / 2 ^ 500 \<le> \<bar>m\<bar>"
  shows "\<exists>q. segment_quotient pw p0 p1 p2 (Fin m) = Inr (Fin q)"
proof -
  from distance_to_finite [OF assms(1,2,3)] obtain r1 where
    r1: "distance_to pw p0 p1 = Inr (Fin r1)" "\<bar>r1\<bar> \<le> 2 ^ 510" by blast
  from distance_to_finite [OF assms(1,3,4)] obtain r2 where
    r2: "distance_to pw p1 p2 = Inr (Fin r2)" "\<bar>r2\<bar> \<le> 2 ^ 510" by blast
  have s12: "\<bar>r1 + r2\<bar> \<le> 2 ^ 511"
    using r1(2) r2(2) abs_triangle_ineq [of r1 r2] by simp
  then have "\<bar>r1 + r2\<bar> \<le> 2 ^ 1020" by simp
  from to_float64_crude [OF this] obtain l where
    l: "to_float64 (r1 + r2) = Fin l" "\<bar>l\<bar> \<le> 2 * \<bar>r1 + r2\<bar> + 1" by blast
  have lb: "\<bar>l\<bar> \<le> 2 ^ 513" using l(2) s12 by simp
  have m0: "m \<noteq> 0" and mpos: "0 < \<bar>m\<bar>" using assms(5)
    by (smt (verit) divide_pos_pos zero_less_numeral zero_less_power abs_zero)+
  have "\<bar>l / m\<bar> = \<bar>l\<bar> / \<bar>m\<bar>" by (simp add: abs_divide)
  also have "\<dots> \<le> 2 ^ 513 / \<bar>m\<bar>" using lb mpos by (simp add: divide_right_mono)
  also have "\<dots> \<le> 2 ^ 513 / (1 / 2 ^ 500)"
    using assms(5) by (intro divide_left_mono) simp_all
  finally have "\<bar>l / m\<bar> \<le> 2 ^ 1020" by simp
  from to_float64_crude [OF this] obtain q where "to_float64 (l / m) = Fin q" by blast
  then have "segment_quotient pw p0 p1 p2 (Fin m) = Inr (Fin q)"
    using r1(1) r2(1) l(1) m0 by (simp add: segment_quotient_def bind_err_def)
  then show ?thesis by blast
qed

lemma adaptive_num_segments_returns:
  "(\<exists>n. adaptive_num_segments pw p0 p1 p2 msl mn mx = Inr n) =
   (\<exists>q. segment_quotient pw p0 p1 p2 msl = Inr (Fin q))"
proof (cases "segment_quotient pw p0 p1 p2 msl")
  case (Inl e)
  then show ?thesis by (simp add: adaptive_num_segments_def bind_err_def)
next
  case (Inr f)
  then show ?thesis by (cases f) (simp_all add: adaptive_num_segments_def bind_err_def)
qed

lemma sqrt_784: "sqrt 784 = 28"
proof -
  have "sqrt ((28::real)\<^sup>2) = 28" by simp
  then show ?thesis by simp
qed

lemma distance_28:
  "distance_to (\<lambda>a. a * a) \<lparr>pt_x = Fin 0, pt_y = Fin 0\<rparr> \<lparr>pt_x = Fin 28, pt_y = Fin 0\<rparr> = Inr (Fin 28)"
  "distance_to (\<lambda>a. a * a) \<lparr>pt_x = Fin 28, pt_y = Fin 0\<rparr> \<lparr>pt_x = Fin 28, pt_y = Fin 0\<rparr> = Inr (Fin 0)"
  "distance_to (\<lambda>a. a * a) \<lparr>pt_x = Fin 0, pt_y = Fin 0\<rparr> \<lparr>pt_x = Fin 0, pt_y = Fin 0\<rparr> = Inr (Fin 0)"
  by (simp_all add: distance_to_def float_sub_def bind_err_def to_float64_small sqrt_784)

lemma quotient_14_3:
  "to_float64 (14 / 3) = Fin (round_binary64 (14 / 3))"
  "py_trunc (round_binary64 (14 / 3)) = 4"
  "round_half_even (round_binary64 (14 / 3)) = 5"
proof -
  have "\<bar>14 / 3 :: real\<bar> \<le> 3 * 2 ^ 1022" by simp
  from to_float64_safe [OF this] obtain r where
    r: "to_float64 (14 / 3) = Fin r" "\<bar>r - 14 / 3\<bar> \<le> \<bar>14 / 3\<bar> / 2 ^ 53 + 1 / 2 ^ 1075"
    by blast
  have "\<bar>14 / 3 :: real\<bar> / 2 ^ 53 + 1 / 2 ^ 1075 \<le> 1 / 100" by simp
  then have b: "46 / 10 < r" "r < 47 / 10" using r(2) by linarith+
  have eq: "r = round_binary64 (14 / 3)" by (rule to_float64_Fin [OF r(1)])
  show "to_float64 (14 / 3) = Fin (round_binary64 (14 / 3))" using r(1) eq by simp
  have "\<lfloor>r\<rfloor> = 4" using b by (intro floor_unique) simp_all
  then show "py_trunc (round_binary64 (14 / 3)) = 4" using b by (simp add: py_trunc_def eq)
  have "round_half_even r = 5" using b by (intro round_half_even_up) simp_all
  then show "round_half_even (round_binary64 (14 / 3)) = 5" by (simp add: eq)
qed

lemma quotient_overflows: "to_float64 (28 * 2 ^ 1070) = PInf"
proof -
  have "round_binary64 (28 * 2 ^ 1070) = 28 * 2 ^ 1070"
    by (rule round_binary64_exact [where e = 1074 and k = "28 * 2 ^ 48"])
      (simp_all add: powr_minus_divide)
  then show ?thesis by (simp add: to_float64_def)
qed

theorem adaptive_segment_count_counterexample:
  "adaptive_num_segments (\<lambda>a. a * a) \<lparr>pt_x = Fin 0, pt_y = Fin 0\<rparr> \<lparr>pt_x = Fin 28, pt_y = Fin 0\<rparr>
      \<lparr>pt_x = Fin 28, pt_y = Fin 0\<rparr> (Fin 6) 3 20 = Inr 4 \<and>
   segment_quotient (\<lambda>a. a * a) \<lparr>pt_x = Fin 0, pt_y = Fin 0\<rparr> \<lparr>pt_x = Fin 28, pt_y = Fin 0\<rparr>
      \<lparr>pt_x = Fin 28, pt_y = Fin 0\<rparr> (Fin 6) = Inr (Fin (round_binary64 (14 / 3))) \<and>
   spec_segment_count (round_binary64 (14 / 3)) 3 20 = 5 \<and>
   adaptive_num_segments (\<lambda>a. a * a) \<lparr>pt_x = Fin 0, pt_y = Fin 0\<rparr> \<lparr>pt_x = Fin 28, pt_y = Fin 0\<rparr>
      \<lparr>pt_x = Fin 28, pt_y = Fin 0\<rparr> (Fin 6) 5 2 = Inr 5 \<and>
   adaptive_decompose_quadratic (\<lambda>a. a * a) \<lparr>pt_x = Fin 0, pt_y = Fin 0\<rparr> \<lparr>pt_x = Fin 0, pt_y = Fin 0\<rparr>
      \<lparr>pt_x = Fin 0, pt_y = Fin 0\<rparr> (Fin 6) 0 20 = Inl ZeroDivisionError \<and>
   adaptive_decompose_quadratic (\<lambda>a. a * a) \<lparr>pt_x = Fin 0, pt_y = Fin 0\<rparr> \<lparr>pt_x = Fin 0, pt_y = Fin 0\<rparr>
      \<lparr>pt_x = Fin 0, pt_y = Fin 0\<rparr> (Fin 6) (- 3) (- 3) = Inr [] \<and>
   adaptive_num_segments (\<lambda>a. a * a) \<lparr>pt_x = Fin 0, pt_y = Fin 0\<rparr> \<lparr>pt_x = Fin 28, pt_y = Fin 0\<rparr>
      \<lparr>pt_x = Fin 28, pt_y = Fin 0\<rparr> (Fin (1 / 2 ^ 1070)) 3 20 = Inl OverflowError"
proof -
  have q: "segment_quotient (\<lambda>a. a * a) \<lparr>pt_x = Fin 0, pt_y = Fin 0\<rparr> \<lparr>pt_x = Fin 28, pt_y = Fin 0\<rparr>
      \<lparr>pt_x = Fin 28, pt_y = Fin 0\<rparr> (Fin 6) = Inr (Fin (round_binary64 (14 / 3)))"
    by (simp add: segment_quotient_def bind_err_def distance_28 to_float64_small quotient_14_3)
  have q0: "segment_quotient (\<lambda>a. a * a) \<lparr>pt_x = Fin 0, pt_y = Fin 0\<rparr> \<lparr>pt_x = Fin 0, pt_y = Fin 0\<rparr>
      \<lparr>pt_x = Fin 0, pt_y = Fin 0\<rparr> (Fin 6) = Inr (Fin 0)"
    by (simp add: segment_quotient_def bind_err_def distance_28 to_float64_small)
  have qinf: "segment_quotient (\<lambda>a. a * a) \<lparr>pt_x = Fin 0, pt_y = Fin 0\<rparr> \<lparr>pt_x = Fin 28, pt_y = Fin 0\<rparr>
      \<lparr>pt_x = Fin 28, pt_y = Fin 0\<rparr> (Fin (1 / 2 ^ 1070)) = Inr PInf"
    by (simp add: segment_quotient_def bind_err_def distance_28 to_float64_small
        quotient_overflows [simplified])
  have c1: "adaptive_num_segments (\<lambda>a. a * a) \<lparr>pt_x = Fin 0, pt_y = Fin 0\<rparr> \<lparr>pt_x = Fin 28, pt_y = Fin 0\<rparr>
      \<lparr>pt_x = Fin 28, pt_y = Fin 0\<rparr> (Fin 6) 3 20 = Inr 4"
    unfolding adaptive_num_segments_def q by (simp add: bind_err_def quotient_14_3)
  have c3: "spec_segment_count (round_binary64 (14 / 3)) 3 20 = 5"
    by (simp add: spec_segment_count_def quotient_14_3)
  have c4: "adaptive_num_segments (\<lambda>a. a * a) \<lparr>pt_x = Fin 0, pt_y = Fin 0\<rparr> \<lparr>pt_x = Fin 28, pt_y = Fin 0\<rparr>
      \<lparr>pt_x = Fin 28, pt_y = Fin 0\<rparr> (Fin 6) 5 2 = Inr 5"
    unfolding adaptive_num_segments_def q by (simp add: bind_err_def quotient_14_3)
  have c5: "adaptive_decompose_quadratic (\<lambda>a. a * a) \<lparr>pt_x = Fin 0, pt_y = Fin 0\<rparr> \<lparr>pt_x = Fin 0, pt_y = Fin 0\<rparr>
      \<lparr>pt_x = Fin 0, pt_y = Fin 0\<rparr> (Fin 6) 0 20 = Inl ZeroDivisionError"
    unfolding adaptive_decompose_quadratic_def adaptive_num_segments_def q0
    by (simp add: bind_err_def py_trunc_def decompose_quadratic_bezier_def int_truediv_def)
  have c6: "adaptive_decompose_quadratic (\<lambda>a. a * a) \<lparr>pt_x = Fin 0, pt_y = Fin 0\<rparr> \<lparr>pt_x = Fin 0, pt_y = Fin 0\<rparr>
      \<lparr>pt_x = Fin 0, pt_y = Fin 0\<rparr> (Fin 6) (- 3) (- 3) = Inr []"
    unfolding adaptive_decompose_quadratic_def adaptive_num_segments_def q0
    by (simp add: bind_err_def py_trunc_def decompose_quadratic_bezier_def)
  have c7: "adaptive_num_segments (\<lambda>a. a * a) \<lparr>pt_x = Fin 0, pt_y = Fin 0\<rparr> \<lparr>pt_x = Fin 28, pt_y = Fin 0\<rparr>
      \<lparr>pt_x = Fin 28, pt_y = Fin 0\<rparr> (Fin (1 / 2 ^ 1070)) 3 20 = Inl OverflowError"
    unfolding adaptive_num_segments_def qinf by (simp add: bind_err_def)
  show ?thesis by (intro conjI c1 q c3 c4 c5 c6 c7)
qed

text \<open>
  C6 (amended). Adaptive decomposition returns a segment count exactly when the
  binary64 quotient \<^verbatim>\<open>rough_length / max_segment_length\<close> is a finite number, which
  it is for control points with coordinates of magnitude at most \<^verbatim>\<open>2**500\<close>, a
  \<^verbatim>\<open>max_segment_length\<close> of magnitude at least \<^verbatim>\<open>2**-500\<close> and a library square
  accurate to one unit in the last place. The count is then
  \<open>max min_segments (min max_segments n)\<close> for \<open>n\<close> the quotient truncated towards
  zero, not rounded; it lies in \<open>[min_segments, max_segments]\<close> when
  \<open>min_segments \<le> max_segments\<close>; and when it is at least 1 the call returns that many
  points plus one, the first \<open>p0\<close> and the last \<open>p2\<close> for control points with finite
  coordinates.
\<close>

theorem adaptive_segment_count:
  "(\<exists>n. adaptive_num_segments pw p0 p1 p2 max_segment_length min_segments max_segments = Inr n) =
     (\<exists>q. segment_quotient pw p0 p1 p2 max_segment_length = Inr (Fin q)) \<and>
   (accurate_square pw \<and> bounded_point p0 \<and> bounded_point p1 \<and> bounded_point p2 \<and>
    1 / 2 ^ 500 \<le> \<bar>m\<bar> \<longrightarrow>
      (\<exists>q. segment_quotient pw p0 p1 p2 (Fin m) = Inr (Fin q))) \<and>
   (segment_quotient pw p0 p1 p2 max_segment_length = Inr (Fin q) \<longrightarrow>
      adaptive_num_segments pw p0 p1 p2 max_segment_length min_segments max_segments =
        Inr (max min_segments (min max_segments (py_trunc q))) \<and>
      (min_segments \<le> max_segments \<longrightarrow>
         min_segments \<le> max min_segments (min max_segments (py_trunc q)) \<and>
         max min_segments (min max_segments (py_trunc q)) \<le> max_segments) \<and>
      (1 \<le> max min_segments (min max_segments (py_trunc q)) \<longrightarrow>
         (\<exists>points.
            adaptive_decompose_quadratic pw p0 p1 p2 max_segment_length min_segments max_segments
              = Inr points \<and>
            length points = nat (max min_segments (min max_segments (py_trunc q))) + 1 \<and>
            (finite_point p0 \<and> finite_point p1 \<and> finite_point p2 \<longrightarrow>
               hd points = p0 \<and> last points = p2))))"
proof (intro conjI impI)
  show "(\<exists>n. adaptive_num_segments pw p0 p1 p2 max_segment_length min_segments max_segments = Inr n) =
     (\<exists>q. segment_quotient pw p0 p1 p2 max_segment_length = Inr (Fin q))"
    by (rule adaptive_num_segments_returns)
next
  assume "accurate_square pw \<and> bounded_point p0 \<and> bounded_point p1 \<and> bounded_point p2 \<and>
    1 / 2 ^ 500 \<le> \<bar>m\<bar>"
  then show "\<exists>q. segment_quotient pw p0 p1 p2 (Fin m) = Inr (Fin q)"
    using segment_quotient_finite by blast
next
  assume q: "segment_quotient pw p0 p1 p2 max_segment_length = Inr (Fin q)"
  then show count: "adaptive_num_segments pw p0 p1 p2 max_segment_length min_segments max_segments =
      Inr (max min_segments (min max_segments (py_trunc q)))"
    by (simp add: adaptive_num_segments_def bind_err_def)
  {
    assume "min_segments \<le> max_segments"
    then show "min_segments \<le> max min_segments (min max_segments (py_trunc q))"
      and "max min_segments (min max_segments (py_trunc q)) \<le> max_segments"
      by simp_all
  }
  assume "1 \<le> max min_segments (min max_segments (py_trunc q))"
  from decompose_quadratic_bezier_points [OF this, of p0 p1 p2]
  show "\<exists>points.
      adaptive_decompose_quadratic pw p0 p1 p2 max_segment_length min_segments max_segments
        = Inr points \<and>
      length points = nat (max min_segments (min max_segments (py_trunc q))) + 1 \<and>
      (finite_point p0 \<and> finite_point p1 \<and> finite_point p2 \<longrightarrow>
         hd points = p0 \<and> last points = p2)"
    by (simp add: adaptive_decompose_quadratic_def count bind_err_def)
qed

theorem adaptive_segment_count_witness:
  "segment_quotient (\<lambda>a. a * a) \<lparr>pt_x = Fin 0, pt_y = Fin 0\<rparr> \<lparr>pt_x = Fin 28, pt_y = Fin 0\<rparr>
      \<lparr>pt_x = Fin 28, pt_y = Fin 0\<rparr> (Fin 6) = Inr (Fin (round_binary64 (14 / 3))) \<and>
   accurate_square (\<lambda>a. a * a) \<and>
   bounded_point \<lparr>pt_x = Fin 0, pt_y = Fin 0\<rparr> \<and> bounded_point \<lparr>pt_x = Fin 28, pt_y = Fin 0\<rparr> \<and>
   finite_point \<lparr>pt_x = Fin 0, pt_y = Fin 0\<rparr> \<and> finite_point \<lparr>pt_x = Fin 28, pt_y = Fin 0\<rparr> \<and>
   1 / 2 ^ 500 \<le> \<bar>6 :: real\<bar> \<and> (3::int) \<le> 20 \<and>
   adaptive_num_segments (\<lambda>a. a * a) \<lparr>pt_x = Fin 0, pt_y = Fin 0\<rparr> \<lparr>pt_x = Fin 28, pt_y = Fin 0\<rparr>
      \<lparr>pt_x = Fin 28, pt_y = Fin 0\<rparr> (Fin 6) 3 20 = Inr 4 \<and>
   (\<exists>points.
      adaptive_decompose_quadratic (\<lambda>a. a * a) \<lparr>pt_x = Fin 0, pt_y = Fin 0\<rparr> \<lparr>pt_x = Fin 28, pt_y = Fin 0\<rparr>
        \<lparr>pt_x = Fin 28, pt_y = Fin 0\<rparr> (Fin 6) 3 20 = Inr points \<and>
      length points = 5 \<and> hd points = \<lparr>pt_x = Fin 0, pt_y = Fin 0\<rparr> \<and>
      last points = \<lparr>pt_x = Fin 28, pt_y = Fin 0\<rparr>)"
proof -
  let ?p0 = "\<lparr>pt_x = Fin 0, pt_y = Fin 0\<rparr>"
  let ?p1 = "\<lparr>pt_x = Fin 28, pt_y = Fin 0\<rparr>"
  have q: "segment_quotient (\<lambda>a. a * a) ?p0 ?p1 ?p1 (Fin 6) = Inr (Fin (round_binary64 (14 / 3)))"
    by (simp add: segment_quotient_def bind_err_def distance_28 to_float64_small quotient_14_3)
  have fin: "finite_point ?p0" "finite_point ?p1"
    using is_double_small by (auto simp: finite_point_def)
  have bnd: "bounded_point ?p0" "bounded_point ?p1"
    by (auto simp: bounded_point_def)
  have m: "1 / 2 ^ 500 \<le> \<bar>6 :: real\<bar>" by simp
  have acc: "accurate_square (\<lambda>a. a * a)" by (simp add: accurate_square_def)
  have t: "max 3 (min 20 (py_trunc (round_binary64 (14 / 3)))) = 4"
    by (simp add: quotient_14_3)
  show ?thesis
    using q fin bnd m acc
      adaptive_segment_count [of "\<lambda>a. a * a" ?p0 ?p1 ?p1 "Fin 6" 3 20 6
        "round_binary64 (14 / 3)"]
    unfolding t by simp
qed

section \<open>Serialization round trip\<close>

lemma map_err_as_str: "map_err as_str (map PStr cs) = Inr cs"
  by (induction cs) (simp_all add: bind_err_def)

lemma HeadingMode_round_trip: "HeadingMode_of (PStr (HeadingMode_value hm)) = Inr hm"
  by (cases hm) (simp_all add: HeadingMode_of_def)

lemma MotionType_round_trip: "MotionType_of (PStr (MotionType_value mt)) = Inr mt"
  by (cases mt) (simp_all add: MotionType_of_def)

lemma Side_round_trip: "Side_of (PStr (Side_value sd)) = Inr sd"
  by (cases sd) (simp_all add: Side_of_def)

lemma Alliance_round_trip: "Alliance_of (PStr (Alliance_value al)) = Inr al"
  by (cases al) (simp_all add: Alliance_of_def)

lemma Waypoint_round_trip: "Waypoint_from_dict (Waypoint_to_dict w) = Inr w"
proof -
  have h: "as_optional_float (case heading w of None \<Rightarrow> PNone | Some h \<Rightarrow> PFloat h)
      = Inr (heading w)"
    by (cases "heading w") simp_all
  show ?thesis
    by (simp add: Waypoint_to_dict_def dict_item_def dict_get_def bind_err_def h
        HeadingMode_round_trip MotionType_round_trip map_err_as_str)
qed

lemma map_err_round_trip:
  "(\<And>v. f (g v) = Inr v) \<Longrightarrow> map_err f (map g vs) = Inr vs"
  by (induction vs) (simp_all add: bind_err_def)

lemma Path_round_trip: "Path_from_dict (Path_to_dict p) = Inr p"
  by (simp add: Path_to_dict_def dict_item_def dict_get_def bind_err_def
      Alliance_round_trip Side_round_trip map_err_round_trip [of Waypoint_from_dict]
      Waypoint_round_trip)

text \<open>
  C8. \<^verbatim>\<open>Project.from_dict(Project.to_dict(P))\<close> succeeds and is \<open>P\<close> again: the same
  season, the same paths in order, and in each path the same waypoints with every field
  (position, heading, heading mode, motion type, flags, commands) unchanged.
\<close>

theorem Project_round_trip: "Project_from_dict (Project_to_dict pr) = Inr pr"
  by (simp add: Project_to_dict_def dict_get_def bind_err_def
      map_err_round_trip [of Path_from_dict] Path_round_trip)

section \<open>Heading and heading mode\<close>

lemma map_err_as_str_inv: "map_err as_str vs = Inr cs \<Longrightarrow> vs = map PStr cs"
proof (induction vs arbitrary: cs)
  case Nil
  then show ?case by simp
next
  case (Cons v vs)
  then show ?case
    by (cases v) (auto simp: bind_err_def split: sum.splits)
qed

lemma Waypoint_from_dict_is_raw:
  assumes "Waypoint_from_dict v = Inr w"
  shows "Waypoint_from_dict_raw v = Inr (raw_of w)"
proof (cases v)
  case (PDict d)
  obtain vx where x: "dict_item d ''x'' = Inr vx" "as_float vx = Inr (wp_x w)"
    using assms PDict by (auto simp: bind_err_def split: sum.splits)
  obtain vy where y: "dict_item d ''y'' = Inr vy" "as_float vy = Inr (wp_y w)"
    using assms PDict by (auto simp: bind_err_def split: sum.splits)
  have h: "as_optional_float (dict_get d ''heading'' PNone) = Inr (heading w)"
    and hm: "HeadingMode_of (dict_get d ''heading_mode'' (PStr ''auto'')) = Inr (heading_mode w)"
    and mt: "MotionType_of (dict_get d ''motion_type'' (PStr ''moveToPose'')) = Inr (motion_type w)"
    and r: "as_bool (dict_get d ''reverse'' (PBool False)) = Inr (reverse w)"
    and i: "as_bool (dict_get d ''intaking'' (PBool False)) = Inr (intaking w)"
    and c: "as_bool (dict_get d ''conveyor'' (PBool False)) = Inr (conveyor w)"
    using assms PDict by (auto simp: bind_err_def split: sum.splits)
  obtain vs where cs: "as_list (dict_get d ''commands_after'' (PList [])) = Inr vs"
      "map_err as_str vs = Inr (commands_after w)"
    using assms PDict by (auto simp: bind_err_def split: sum.splits)
  have vx: "vx = PFloat (wp_x w)" using x(2) by (cases vx) simp_all
  have vy: "vy = PFloat (wp_y w)" using y(2) by (cases vy) simp_all
  have hv: "dict_get d ''heading'' PNone = (case heading w of None \<Rightarrow> PNone | Some a \<Rightarrow> PFloat a)"
    using h by (cases "dict_get d ''heading'' PNone"; cases "heading w") auto
  have rv: "dict_get d ''reverse'' (PBool False) = PBool (reverse w)"
    using r by (cases "dict_get d ''reverse'' (PBool False)") simp_all
  have iv: "dict_get d ''intaking'' (PBool False) = PBool (intaking w)"
    using i by (cases "dict_get d ''intaking'' (PBool False)") simp_all
  have cv: "dict_get d ''conveyor'' (PBool False) = PBool (conveyor w)"
    using c by (cases "dict_get d ''conveyor'' (PBool False)") simp_all
  have lv: "dict_get d ''commands_after'' (PList []) = PList (map PStr (commands_after w))"
    using cs map_err_as_str_inv [of vs "commands_after w"]
    by (cases "dict_get d ''commands_after'' (PList [])") simp_all
  show ?thesis
    by (simp add: PDict x(1) y(1) vx vy hm mt bind_err_def raw_of_def hv rv iv cv lv)
qed (use assms in simp_all)

lemma raw_heading_invariant_of: "raw_heading_invariant (raw_of w) = heading_invariant w"
  by (cases "heading w") (simp_all add: raw_heading_invariant_def heading_invariant_def raw_of_def)

theorem heading_invariant_counterexample:
  "Waypoint_from_dict_raw (PDict [(''x'', PFloat 0), (''y'', PFloat 0), (''heading'', PFloat 90)]) =
     Inr \<lparr>raw_x = PFloat 0, raw_y = PFloat 0, raw_heading = PFloat 90,
          raw_heading_mode = AUTO, raw_motion_type = MOVE_TO_POSE, raw_reverse = PBool False,
          raw_intaking = PBool False, raw_conveyor = PBool False,
          raw_commands_after = PList []\<rparr> \<and>
   \<not> raw_heading_invariant \<lparr>raw_x = PFloat 0, raw_y = PFloat 0, raw_heading = PFloat 90,
          raw_heading_mode = AUTO, raw_motion_type = MOVE_TO_POSE, raw_reverse = PBool False,
          raw_intaking = PBool False, raw_conveyor = PBool False,
          raw_commands_after = PList []\<rparr> \<and>
   Waypoint_from_dict_raw (PDict [(''x'', PFloat 0), (''y'', PFloat 0),
                                  (''heading_mode'', PStr ''manual'')]) =
     Inr \<lparr>raw_x = PFloat 0, raw_y = PFloat 0, raw_heading = PNone,
          raw_heading_mode = MANUAL, raw_motion_type = MOVE_TO_POSE, raw_reverse = PBool False,
          raw_intaking = PBool False, raw_conveyor = PBool False,
          raw_commands_after = PList []\<rparr> \<and>
   \<not> raw_heading_invariant \<lparr>raw_x = PFloat 0, raw_y = PFloat 0, raw_heading = PNone,
          raw_heading_mode = MANUAL, raw_motion_type = MOVE_TO_POSE, raw_reverse = PBool False,
          raw_intaking = PBool False, raw_conveyor = PBool False,
          raw_commands_after = PList []\<rparr> \<and>
   Waypoint_from_dict_raw (PDict [(''x'', PFloat 0), (''y'', PFloat 0),
                                  (''heading'', PBool True)]) =
     Inr \<lparr>raw_x = PFloat 0, raw_y = PFloat 0, raw_heading = PBool True,
          raw_heading_mode = AUTO, raw_motion_type = MOVE_TO_POSE, raw_reverse = PBool False,
          raw_intaking = PBool False, raw_conveyor = PBool False,
          raw_commands_after = PList []\<rparr> \<and>
   \<not> raw_heading_invariant \<lparr>raw_x = PFloat 0, raw_y = PFloat 0, raw_heading = PBool True,
          raw_heading_mode = AUTO, raw_motion_type = MOVE_TO_POSE, raw_reverse = PBool False,
          raw_intaking = PBool False, raw_conveyor = PBool False,
          raw_commands_after = PList []\<rparr>"
  by (simp add: dict_item_def dict_get_def bind_err_def HeadingMode_of_def MotionType_of_def
      raw_heading_invariant_def)

lemma Waypoint_from_dict_raw_succeeds:
  "(\<exists>w. Waypoint_from_dict_raw (PDict d) = Inr w) =
     (map_of d ''x'' \<noteq> None \<and> map_of d ''y'' \<noteq> None \<and>
      dict_get d ''heading_mode'' (PStr ''auto'') \<in> {PStr ''auto'', PStr ''manual''} \<and>
      dict_get d ''motion_type'' (PStr ''moveToPose'') \<in>
        {PStr ''start'', PStr ''moveToPose'', PStr ''moveVertical'', PStr ''rotateTo''})"
  by (auto simp: bind_err_def dict_item_def HeadingMode_of_def MotionType_of_def
      split: sum.splits option.splits if_splits)

lemma Waypoint_from_dict_raw_heading:
  assumes "Waypoint_from_dict_raw (PDict d) = Inr w"
  shows "raw_heading w = dict_get d ''heading'' PNone"
    and "(raw_heading_mode w = MANUAL) =
           (dict_get d ''heading_mode'' (PStr ''auto'') = PStr ''manual'')"
  using assms
  by (auto simp: bind_err_def HeadingMode_of_def split: sum.splits if_splits)

text \<open>
  C9 (amended). A waypoint constructed with the defaults, and the waypoint appended
  by \<^verbatim>\<open>add_waypoint\<close>, has heading mode MANUAL exactly when its heading is set, and
  no heading in mode AUTO. \<^verbatim>\<open>Waypoint.from_dict\<close> validates neither field against the
  other: it returns a waypoint for every dict that has \<^verbatim>\<open>x\<close> and \<^verbatim>\<open>y\<close> and valid
  enumeration values, whatever the heading is; the waypoint carries the heading and
  the mode of the dict (\<^verbatim>\<open>None\<close> and AUTO when absent), and it has the property exactly
  when the dict pairs the mode \<^verbatim>\<open>manual\<close> with a heading that is not \<^verbatim>\<open>None\<close>, and the
  mode \<^verbatim>\<open>auto\<close> with a heading that is \<^verbatim>\<open>None\<close> or absent.
\<close>

theorem heading_invariant_constructed:
  "heading_invariant (Waypoint_default px py) \<and>
   heading_invariant (Waypoint_init px py motion) \<and>
   heading_invariant (last (waypoints (snd (add_waypoint p px py)))) \<and>
   (\<exists>w. Waypoint_from_dict_raw (PDict d) = Inr w) =
     (map_of d ''x'' \<noteq> None \<and> map_of d ''y'' \<noteq> None \<and>
      dict_get d ''heading_mode'' (PStr ''auto'') \<in> {PStr ''auto'', PStr ''manual''} \<and>
      dict_get d ''motion_type'' (PStr ''moveToPose'') \<in>
        {PStr ''start'', PStr ''moveToPose'', PStr ''moveVertical'', PStr ''rotateTo''}) \<and>
   (Waypoint_from_dict_raw (PDict d) = Inr w \<longrightarrow>
      raw_heading w = dict_get d ''heading'' PNone \<and>
      (raw_heading_mode w = MANUAL) =
        (dict_get d ''heading_mode'' (PStr ''auto'') = PStr ''manual'') \<and>
      raw_heading_invariant w =
        ((dict_get d ''heading_mode'' (PStr ''auto'') = PStr ''manual'') =
         (dict_get d ''heading'' PNone \<noteq> PNone)))"
proof (intro conjI impI)
  show "heading_invariant (Waypoint_default px py)"
    by (simp add: heading_invariant_def Waypoint_default_def Waypoint_init_def)
  show "heading_invariant (Waypoint_init px py motion)"
    by (simp add: heading_invariant_def Waypoint_init_def)
  show "heading_invariant (last (waypoints (snd (add_waypoint p px py))))"
    by (simp add: heading_invariant_def add_waypoint_def Waypoint_init_def Let_def)
  show "(\<exists>w. Waypoint_from_dict_raw (PDict d) = Inr w) =
     (map_of d ''x'' \<noteq> None \<and> map_of d ''y'' \<noteq> None \<and>
      dict_get d ''heading_mode'' (PStr ''auto'') \<in> {PStr ''auto'', PStr ''manual''} \<and>
      dict_get d ''motion_type'' (PStr ''moveToPose'') \<in>
        {PStr ''start'', PStr ''moveToPose'', PStr ''moveVertical'', PStr ''rotateTo''})"
    by (rule Waypoint_from_dict_raw_succeeds)
next
  assume ok: "Waypoint_from_dict_raw (PDict d) = Inr w"
  show hd: "raw_heading w = dict_get d ''heading'' PNone"
    by (rule Waypoint_from_dict_raw_heading(1) [OF ok])
  show mode: "(raw_heading_mode w = MANUAL) =
      (dict_get d ''heading_mode'' (PStr ''auto'') = PStr ''manual'')"
    by (rule Waypoint_from_dict_raw_heading(2) [OF ok])
  have "raw_heading_invariant w = ((raw_heading_mode w = MANUAL) = (raw_heading w \<noteq> PNone))"
    by (cases "raw_heading_mode w") (auto simp: raw_heading_invariant_def)
  then show "raw_heading_invariant w =
      ((dict_get d ''heading_mode'' (PStr ''auto'') = PStr ''manual'') =
       (dict_get d ''heading'' PNone \<noteq> PNone))"
    by (simp only: mode hd)
qed

theorem heading_invariant_constructed_witness:
  "Waypoint_from_dict_raw (PDict [(''x'', PFloat 1), (''y'', PFloat 2), (''heading'', PFloat 90),
                                  (''heading_mode'', PStr ''manual'')]) =
     Inr \<lparr>raw_x = PFloat 1, raw_y = PFloat 2, raw_heading = PFloat 90,
          raw_heading_mode = MANUAL, raw_motion_type = MOVE_TO_POSE, raw_reverse = PBool False,
          raw_intaking = PBool False, raw_conveyor = PBool False,
          raw_commands_after = PList []\<rparr> \<and>
   raw_heading_invariant \<lparr>raw_x = PFloat 1, raw_y = PFloat 2, raw_heading = PFloat 90,
          raw_heading_mode = MANUAL, raw_motion_type = MOVE_TO_POSE, raw_reverse = PBool False,
          raw_intaking = PBool False, raw_conveyor = PBool False,
          raw_commands_after = PList []\<rparr> \<and>
   heading_invariant (last (waypoints (snd (add_waypoint (Path_init ''Auto1'') 0 0))))"
proof -
  have ok: "Waypoint_from_dict_raw (PDict [(''x'', PFloat 1), (''y'', PFloat 2),
      (''heading'', PFloat 90), (''heading_mode'', PStr ''manual'')]) =
     Inr \<lparr>raw_x = PFloat 1, raw_y = PFloat 2, raw_heading = PFloat 90,
          raw_heading_mode = MANUAL, raw_motion_type = MOVE_TO_POSE, raw_reverse = PBool False,
          raw_intaking = PBool False, raw_conveyor = PBool False,
          raw_commands_after = PList []\<rparr>"
    by (simp add: dict_item_def dict_get_def bind_err_def HeadingMode_of_def MotionType_of_def)
  show ?thesis
    using ok heading_invariant_constructed [of 0 0 MOVE_TO_POSE "Path_init ''Auto1''"
        "[(''x'', PFloat 1), (''y'', PFloat 2), (''heading'', PFloat 90),
          (''heading_mode'', PStr ''manual'')]"
        "\<lparr>raw_x = PFloat 1, raw_y = PFloat 2, raw_heading = PFloat 90,
          raw_heading_mode = MANUAL, raw_motion_type = MOVE_TO_POSE, raw_reverse = PBool False,
          raw_intaking = PBool False, raw_conveyor = PBool False,
          raw_commands_after = PList []\<rparr>"]
    by (simp add: dict_get_def)
qed


end
